theory Spec2Isabelle
  imports Main "HOL-Library.Word" "HOL-Library.Signed_Division"
begin

unbundle bit_operations_syntax

section \<open>Status LED driver of the kabarga shield (status_led.c)\<close>

text \<open>
  The C integer types: \<open>uint8_t\<close> and \<open>uint32_t\<close> are words, \<open>int\<close> is \<open>int\<close>
  (no \<open>int\<close> computation of the module leaves the 32-bit range).  The C division
  \<open>/\<close> on \<open>int\<close> truncates towards zero and is written \<open>sdiv\<close>; on \<open>uint32_t\<close>
  it is the unsigned division of words.
\<close>

type_synonym u8 = "8 word"
type_synonym u32 = "32 word"

subsection \<open>Constants\<close>

definition FADE_DURATION_PROFILE_MS :: u32 where "FADE_DURATION_PROFILE_MS = 400"
definition FADE_DURATION_BATTERY_MS :: u32 where "FADE_DURATION_BATTERY_MS = 800"
definition FADE_DURATION_USB_MS :: u32 where "FADE_DURATION_USB_MS = 400"
definition FADE_DURATION_DISCONNECT_MS :: u32 where "FADE_DURATION_DISCONNECT_MS = 300"
definition BLINK_HOLD_DURATION_MS :: int where "BLINK_HOLD_DURATION_MS = 100"
definition LED_STATUS_ON :: int where "LED_STATUS_ON = 100"
definition LED_STATUS_OFF :: int where "LED_STATUS_OFF = 0"
definition LED_FADE_STEPS :: int where "LED_FADE_STEPS = 100"

text \<open>
  Modelled from the spec: the USB connection states are declared outside this
  repository (\<open>ZMK_USB_CONN_NONE\<close> and \<open>ZMK_USB_CONN_POWERED\<close> in ZMK's enum
  \<open>zmk_usb_conn_state\<close>, \<open>USB_DC_SUSPEND\<close> in Zephyr's enum \<open>usb_dc_status_code\<close>);
  the spec names them "none", "powered" and "suspended".  They are given the values
  of their position in those enums; every result below keeps them symbolic.
\<close>

definition ZMK_USB_CONN_NONE :: int where "ZMK_USB_CONN_NONE = 0"
definition ZMK_USB_CONN_POWERED :: int where "ZMK_USB_CONN_POWERED = 1"
definition USB_DC_SUSPEND :: int where "USB_DC_SUSPEND = 5"

subsection \<open>Data\<close>

text \<open>
  \<open>LedType\<close> is the enum indexing the arrays \<open>individual_leds\<close> and
  \<open>led_brightness\<close>; \<open>LED_COUNT\<close> is its last enumerator.  \<open>led_index\<close> is the
  integer value of an enumerator and \<open>all_leds\<close> the values a loop
  \<open>for (int k = 0; k < LED_COUNT; k++)\<close> runs through, in order.
\<close>

datatype LedType = LED_1 | LED_2 | LED_3 | LED_4

definition LED_COUNT :: int where "LED_COUNT = 4"

fun led_index :: "LedType \<Rightarrow> int" where
  "led_index LED_1 = 0"
| "led_index LED_2 = 1"
| "led_index LED_3 = 2"
| "led_index LED_4 = 3"

definition all_leds :: "LedType list" where
  "all_leds = [LED_1, LED_2, LED_3, LED_4]"

text \<open>The delayable work items the module defines.\<close>

datatype work =
    check_ble_conn_work
  | usb_animation_work
  | battery_animation_work
  | ble_profile_work
  | usb_conn_work

text \<open>
  What the module does to the outside world, in the order it does it: the calls of
  the LED driver (\<open>led_set_brightness\<close>, \<open>led_off\<close>), of \<open>k_msleep\<close> (milliseconds)
  and of the work queue (\<open>k_work_schedule_for_queue\<close> on the animation queue,
  \<open>k_work_reschedule\<close>; the delay in milliseconds).
\<close>

datatype event =
    LedSetBrightness LedType u8
  | LedOff LedType
  | MSleep int
  | WorkSchedule work int
  | WorkReschedule work int

text \<open>The global variables of the module, and the trace of its outside calls.\<close>

record state =
  is_connection_checking :: bool
  usb_conn_state :: int
  profile_count_blink :: int
  led_brightness :: "LedType \<Rightarrow> u8"
  trace :: "event list"

definition initial_state :: state where
  "initial_state = \<lparr> is_connection_checking = False, usb_conn_state = ZMK_USB_CONN_NONE,
     profile_count_blink = 1, led_brightness = (\<lambda>_. 0), trace = [] \<rparr>"

subsection \<open>LED driver adapter\<close>

definition emit :: "event \<Rightarrow> state \<Rightarrow> state" where
  "emit e s = s\<lparr>trace := trace s @ [e]\<rparr>"

definition set_individual_led_brightness :: "LedType \<Rightarrow> u8 \<Rightarrow> state \<Rightarrow> state" where
  "set_individual_led_brightness led brightness s =
     (emit (LedSetBrightness led brightness) s)
       \<lparr>led_brightness := (led_brightness s)(led := brightness)\<rparr>"

definition get_led_brightness :: "LedType \<Rightarrow> state \<Rightarrow> u8" where
  "get_led_brightness led s = led_brightness s led"

definition k_msleep :: "int \<Rightarrow> state \<Rightarrow> state" where
  "k_msleep ms s = emit (MSleep ms) s"

fun turn_off_leds :: "LedType list \<Rightarrow> state \<Rightarrow> state" where
  "turn_off_leds [] s = s"
| "turn_off_leds (i # is) s = turn_off_leds is (emit (LedOff i) s)"

definition turn_off_all_leds :: "state \<Rightarrow> state" where
  "turn_off_all_leds s = turn_off_leds all_leds s"

subsection \<open>Animation primitives\<close>

text \<open>
  \<open>fade_in_led\<close>: the loop \<open>for (int i = 0; i <= LED_FADE_STEPS; i++)\<close>, entered at
  counter \<open>i\<close>.  The brightness argument is an \<open>int\<close> converted to \<open>uint8_t\<close>;
  \<open>step_delay\<close> is a \<open>uint32_t\<close> converted to the \<open>int32_t\<close> parameter of \<open>k_msleep\<close>.
\<close>

function fade_in_loop :: "LedType \<Rightarrow> u32 \<Rightarrow> int \<Rightarrow> state \<Rightarrow> state" where
  "fade_in_loop led step_delay i s =
     (if i \<le> LED_FADE_STEPS
      then fade_in_loop led step_delay (i + 1)
             (k_msleep (sint step_delay)
               (set_individual_led_brightness led
                  (of_int (LED_STATUS_ON * i sdiv LED_FADE_STEPS)) s))
      else s)"
  by pat_completeness auto
termination
  by (relation "measure (\<lambda>(led, step_delay, i, s). nat (LED_FADE_STEPS + 1 - i))") auto

declare fade_in_loop.simps [simp del]

definition fade_in_led :: "LedType \<Rightarrow> u32 \<Rightarrow> state \<Rightarrow> state" where
  "fade_in_led led duration_ms s =
     fade_in_loop led (duration_ms div of_int LED_FADE_STEPS) 0 s"

text \<open>
  \<open>fade_out_all_leds\<close>: the inner loop over the LEDs reads the cached brightness of
  each LED and writes it back scaled by \<open>j / LED_FADE_STEPS\<close>; the outer loop
  \<open>for (int j = LED_FADE_STEPS; j >= 0; j--)\<close>, entered at counter \<open>j\<close>.
\<close>

fun fade_out_leds :: "int \<Rightarrow> LedType list \<Rightarrow> state \<Rightarrow> state" where
  "fade_out_leds j [] s = s"
| "fade_out_leds j (i # is) s =
     fade_out_leds j is
       (let current_brightness = get_led_brightness i s
        in set_individual_led_brightness i
             (of_int (uint current_brightness * j sdiv LED_FADE_STEPS)) s)"

function fade_out_loop :: "u32 \<Rightarrow> int \<Rightarrow> state \<Rightarrow> state" where
  "fade_out_loop step_delay j s =
     (if j \<ge> 0
      then fade_out_loop step_delay (j - 1)
             (k_msleep (sint step_delay) (fade_out_leds j all_leds s))
      else s)"
  by pat_completeness auto
termination
  by (relation "measure (\<lambda>(step_delay, j, s). nat (j + 1))") auto

declare fade_out_loop.simps [simp del]

definition fade_out_all_leds :: "u32 \<Rightarrow> state \<Rightarrow> state" where
  "fade_out_all_leds duration_ms s =
     fade_out_loop (duration_ms div of_int LED_FADE_STEPS) LED_FADE_STEPS s"

text \<open>
  \<open>smooth_blink_leds\<close>: \<open>mask_selects led_mask k\<close> is the test
  \<open>led_mask & (1 << (LED_COUNT - 1 - k))\<close>, on the mask promoted to \<open>int\<close>.
\<close>

definition mask_selects :: "u8 \<Rightarrow> LedType \<Rightarrow> bool" where
  "mask_selects led_mask k \<longleftrightarrow>
     (uint led_mask AND push_bit (nat (LED_COUNT - 1 - led_index k)) 1) \<noteq> 0"

fun blink_in_leds :: "u8 \<Rightarrow> int \<Rightarrow> LedType list \<Rightarrow> state \<Rightarrow> state" where
  "blink_in_leds led_mask j [] s = s"
| "blink_in_leds led_mask j (k # ks) s =
     blink_in_leds led_mask j ks
       (if mask_selects led_mask k
        then set_individual_led_brightness k
               (of_int (LED_STATUS_ON * j sdiv LED_FADE_STEPS)) s
        else s)"

function blink_in_loop :: "u8 \<Rightarrow> u32 \<Rightarrow> int \<Rightarrow> state \<Rightarrow> state" where
  "blink_in_loop led_mask step_delay j s =
     (if j \<le> LED_FADE_STEPS
      then blink_in_loop led_mask step_delay (j + 1)
             (k_msleep (sint step_delay) (blink_in_leds led_mask j all_leds s))
      else s)"
  by pat_completeness auto
termination
  by (relation "measure (\<lambda>(led_mask, step_delay, j, s). nat (LED_FADE_STEPS + 1 - j))") auto

declare blink_in_loop.simps [simp del]

fun blink_out_leds :: "u8 \<Rightarrow> int \<Rightarrow> LedType list \<Rightarrow> state \<Rightarrow> state" where
  "blink_out_leds led_mask j [] s = s"
| "blink_out_leds led_mask j (k # ks) s =
     blink_out_leds led_mask j ks
       (if mask_selects led_mask k
        then (let current_brightness = get_led_brightness k s
              in set_individual_led_brightness k
                   (of_int (uint current_brightness * j sdiv LED_FADE_STEPS)) s)
        else s)"

function blink_out_loop :: "u8 \<Rightarrow> u32 \<Rightarrow> int \<Rightarrow> state \<Rightarrow> state" where
  "blink_out_loop led_mask step_delay j s =
     (if j \<ge> 0
      then blink_out_loop led_mask step_delay (j - 1)
             (k_msleep (sint step_delay) (blink_out_leds led_mask j all_leds s))
      else s)"
  by pat_completeness auto
termination
  by (relation "measure (\<lambda>(led_mask, step_delay, j, s). nat (j + 1))") auto

declare blink_out_loop.simps [simp del]

text \<open>One pass of the body of the outer loop of \<open>smooth_blink_leds\<close>.\<close>

definition blink_once :: "u8 \<Rightarrow> u32 \<Rightarrow> state \<Rightarrow> state" where
  "blink_once led_mask duration_ms s =
     (let step_delay = duration_ms div of_int (2 * LED_FADE_STEPS);
          s1 = blink_in_loop led_mask step_delay 0 s;
          s2 = k_msleep BLINK_HOLD_DURATION_MS s1;
          s3 = blink_out_loop led_mask step_delay LED_FADE_STEPS s2
      in k_msleep BLINK_HOLD_DURATION_MS s3)"

function blink_loop :: "u8 \<Rightarrow> int \<Rightarrow> u32 \<Rightarrow> int \<Rightarrow> state \<Rightarrow> state" where
  "blink_loop led_mask count duration_ms i s =
     (if i < count
      then blink_loop led_mask count duration_ms (i + 1) (blink_once led_mask duration_ms s)
      else s)"
  by pat_completeness auto
termination
  by (relation "measure (\<lambda>(led_mask, count, duration_ms, i, s). nat (count - i))") auto

declare blink_loop.simps [simp del]

definition smooth_blink_leds :: "u8 \<Rightarrow> int \<Rightarrow> u32 \<Rightarrow> state \<Rightarrow> state" where
  "smooth_blink_leds led_mask count duration_ms s = blink_loop led_mask count duration_ms 0 s"

subsection \<open>Scenario handlers\<close>

text \<open>
  The work handlers run on the animation work queue.  What a handler asks of the rest
  of the firmware is a parameter: \<open>ble_connected\<close> is the result of
  \<open>zmk_ble_active_profile_is_connected()\<close>, \<open>level\<close> the result of
  \<open>zmk_battery_state_of_charge()\<close>.  \<open>K_SECONDS(n)\<close> is \<open>1000 * n\<close> milliseconds,
  \<open>K_NO_WAIT\<close> is 0.
\<close>

definition K_NO_WAIT :: int where "K_NO_WAIT = 0"

definition K_SECONDS :: "int \<Rightarrow> int" where "K_SECONDS n = 1000 * n"

definition k_work_reschedule :: "work \<Rightarrow> int \<Rightarrow> state \<Rightarrow> state" where
  "k_work_reschedule w delay s = emit (WorkReschedule w delay) s"

definition k_work_schedule_for_queue :: "work \<Rightarrow> int \<Rightarrow> state \<Rightarrow> state" where
  "k_work_schedule_for_queue w delay s = emit (WorkSchedule w delay) s"

definition check_bluetooth_connection_handler :: "bool \<Rightarrow> state \<Rightarrow> state" where
  "check_bluetooth_connection_handler ble_connected s =
     (if \<not> is_connection_checking s then s
      else if ble_connected \<or> usb_conn_state s \<noteq> ZMK_USB_CONN_NONE
      then s\<lparr>is_connection_checking := False\<rparr>
      else k_work_reschedule check_ble_conn_work (K_SECONDS 4)
             (smooth_blink_leds 0b0001 1 FADE_DURATION_DISCONNECT_MS s))"

fun usb_fade_in_leds :: "LedType list \<Rightarrow> state \<Rightarrow> state" where
  "usb_fade_in_leds [] s = s"
| "usb_fade_in_leds (i # is) s =
     usb_fade_in_leds is (k_msleep BLINK_HOLD_DURATION_MS (fade_in_led i FADE_DURATION_USB_MS s))"

definition usb_animation_handler :: "state \<Rightarrow> state" where
  "usb_animation_handler s =
     (if usb_conn_state s = USB_DC_SUSPEND
      then fade_out_all_leds FADE_DURATION_DISCONNECT_MS s
      else fade_out_all_leds FADE_DURATION_USB_MS
             (k_msleep BLINK_HOLD_DURATION_MS (usb_fade_in_leds all_leds s)))"

definition battery_animation_handler :: "u8 \<Rightarrow> state \<Rightarrow> state" where
  "battery_animation_handler level s =
     (if level \<le> 15 then smooth_blink_leds 0b1000 3 FADE_DURATION_BATTERY_MS s
      else if level \<le> 30 then smooth_blink_leds 0b1000 1 FADE_DURATION_BATTERY_MS s
      else if level \<le> 50 then smooth_blink_leds 0b1100 1 FADE_DURATION_BATTERY_MS s
      else if level \<le> 80 then smooth_blink_leds 0b1110 1 FADE_DURATION_BATTERY_MS s
      else smooth_blink_leds 0b1110 3 FADE_DURATION_BATTERY_MS s)"

definition initialize_leds :: "state \<Rightarrow> state" where
  "initialize_leds s =
     k_work_schedule_for_queue battery_animation_work (K_SECONDS 1) (turn_off_all_leds s)"

text \<open>
  \<open>0b1000 >> profile_count_blink\<close> is a shift of \<open>int\<close>, converted to the \<open>uint8_t\<close>
  mask; the counter is never negative (it starts at 1 and is only assigned a
  \<open>uint8_t\<close>).
\<close>

definition ble_profile_handler :: "state \<Rightarrow> state" where
  "ble_profile_handler s =
     (let s1 = smooth_blink_leds (of_int (drop_bit (nat (profile_count_blink s)) 0b1000)) 1
                 FADE_DURATION_PROFILE_MS s
      in if \<not> is_connection_checking s1
         then k_work_reschedule check_ble_conn_work (K_SECONDS 4)
                (s1\<lparr>is_connection_checking := True\<rparr>)
         else s1)"

text \<open>
  The listeners get the event already cast: \<open>None\<close> when
  \<open>as_zmk_ble_active_profile_changed\<close> (\<open>as_zmk_usb_conn_state_changed\<close>) returns
  \<open>NULL\<close>, otherwise the \<open>index\<close> field (a \<open>uint8_t\<close> in ZMK) or the \<open>conn_state\<close>
  field of the event.  Both return \<open>ZMK_EV_EVENT_BUBBLE\<close> on every path, which the
  model leaves out.
\<close>

definition ble_profile_listener :: "u8 option \<Rightarrow> state \<Rightarrow> state" where
  "ble_profile_listener profile_ev s =
     (case profile_ev of
        None \<Rightarrow> s
      | Some index \<Rightarrow>
          if index \<le> 2
          then k_work_schedule_for_queue ble_profile_work K_NO_WAIT
                 (s\<lparr>profile_count_blink := uint index\<rparr>)
          else s)"

definition usb_connection_handler :: "state \<Rightarrow> state" where
  "usb_connection_handler s =
     (if usb_conn_state s = ZMK_USB_CONN_POWERED
      then k_work_schedule_for_queue usb_animation_work K_NO_WAIT s
      else k_work_reschedule check_ble_conn_work (K_SECONDS 4)
             (s\<lparr>is_connection_checking := True\<rparr>))"

definition usb_connection_listener :: "int option \<Rightarrow> state \<Rightarrow> state" where
  "usb_connection_listener usb_ev s =
     (case usb_ev of
        None \<Rightarrow> s
      | Some conn_state \<Rightarrow>
          k_work_schedule_for_queue usb_conn_work K_NO_WAIT (s\<lparr>usb_conn_state := conn_state\<rparr>))"

definition show_battery :: "state \<Rightarrow> state" where
  "show_battery s = k_work_schedule_for_queue battery_animation_work K_NO_WAIT s"

definition hide_battery :: "state \<Rightarrow> state" where
  "hide_battery s = s"

text \<open>
  Repeated runs of the disconnect-check handler, one for each element of the list:
  the element is what \<open>zmk_ble_active_profile_is_connected()\<close> answers in that run.
\<close>

fun check_runs :: "bool list \<Rightarrow> state \<Rightarrow> state" where
  "check_runs [] s = s"
| "check_runs (ble_connected # rest) s =
     check_runs rest (check_bluetooth_connection_handler ble_connected s)"

subsection \<open>Reading the trace\<close>

text \<open>
  The brightness values written to one LED, the sleeps, the work-queue calls, and the
  driver calls addressed to one LED, each in the order of the trace.
\<close>

fun brightness_writes :: "LedType \<Rightarrow> event list \<Rightarrow> u8 list" where
  "brightness_writes led [] = []"
| "brightness_writes led (LedSetBrightness k b # es) =
     (if k = led then b # brightness_writes led es else brightness_writes led es)"
| "brightness_writes led (e # es) = brightness_writes led es"

fun sleeps :: "event list \<Rightarrow> int list" where
  "sleeps [] = []"
| "sleeps (MSleep ms # es) = ms # sleeps es"
| "sleeps (e # es) = sleeps es"

fun is_work_call :: "event \<Rightarrow> bool" where
  "is_work_call (WorkSchedule w d) = True"
| "is_work_call (WorkReschedule w d) = True"
| "is_work_call e = False"

definition work_calls :: "event list \<Rightarrow> event list" where
  "work_calls es = filter is_work_call es"

fun addresses :: "LedType \<Rightarrow> event \<Rightarrow> bool" where
  "addresses led (LedSetBrightness k b) = (k = led)"
| "addresses led (LedOff k) = (k = led)"
| "addresses led e = False"

definition led_calls :: "LedType \<Rightarrow> event list \<Rightarrow> event list" where
  "led_calls led es = filter (addresses led) es"

text \<open>
  The level the hardware of one LED was last set to: \<open>None\<close> before the first driver
  call for it; \<open>led_off\<close> leaves it at \<open>LED_STATUS_OFF\<close>.
\<close>

fun hw_level :: "LedType \<Rightarrow> event list \<Rightarrow> u8 option" where
  "hw_level led [] = None"
| "hw_level led (e # es) =
     (case hw_level led es of
        Some v \<Rightarrow> Some v
      | None \<Rightarrow>
         (case e of
            LedSetBrightness k b \<Rightarrow> if k = led then Some b else None
          | LedOff k \<Rightarrow> if k = led then Some (of_int LED_STATUS_OFF) else None
          | _ \<Rightarrow> None))"

text \<open>
  The value a fade-out step with counter \<open>j\<close> writes to a LED whose cached brightness
  is \<open>c\<close>: the product is computed in \<open>int\<close> and converted to \<open>uint8_t\<close>.
\<close>

definition scale :: "u8 \<Rightarrow> int \<Rightarrow> u8" where
  "scale c j = of_int (uint c * j sdiv LED_FADE_STEPS)"

text \<open>
  The values a fade-out writes to one LED over the steps \<open>j, j - 1, ..., 0\<close>, when the
  cached brightness of the LED is \<open>c\<close> at the first of them: each step reads the value
  the step before wrote.
\<close>

function fade_values :: "u8 \<Rightarrow> int \<Rightarrow> u8 list" where
  "fade_values c j =
     (if j \<ge> 0
      then (let c' = of_int (uint c * j sdiv LED_FADE_STEPS) in c' # fade_values c' (j - 1))
      else [])"
  by pat_completeness auto
termination
  by (relation "measure (\<lambda>(c, j). nat (j + 1))") auto

declare fade_values.simps [simp del]

text \<open>
  The values a fade-in writes over the steps \<open>0, 1, ..., LED_FADE_STEPS\<close>.
\<close>

definition fade_in_values :: "u8 list" where
  "fade_in_values =
     map (\<lambda>i. of_int (LED_STATUS_ON * i sdiv LED_FADE_STEPS)) [0..LED_FADE_STEPS]"

text \<open>
  The values one repetition of a blink writes to each LED of the mask: the ramp up,
  then the fade-out from the brightness the ramp ended at.
\<close>

definition blink_values :: "u8 list" where
  "blink_values = fade_in_values @ fade_values (of_int LED_STATUS_ON) LED_FADE_STEPS"

text \<open>The sleeps of one repetition of a blink whose step delay is \<open>d\<close>.\<close>

definition blink_sleeps :: "int \<Rightarrow> int list" where
  "blink_sleeps d =
     replicate 101 d @ [BLINK_HOLD_DURATION_MS] @ replicate 101 d @ [BLINK_HOLD_DURATION_MS]"

text \<open>
  The LED-writing operations of the module, to speak of sequences of them.
\<close>

datatype led_op =
    SetBrightness LedType u8
  | FadeIn LedType u32
  | FadeOutAll u32
  | SmoothBlink u8 int u32
  | TurnOffAll

fun apply_op :: "led_op \<Rightarrow> state \<Rightarrow> state" where
  "apply_op (SetBrightness led b) s = set_individual_led_brightness led b s"
| "apply_op (FadeIn led duration_ms) s = fade_in_led led duration_ms s"
| "apply_op (FadeOutAll duration_ms) s = fade_out_all_leds duration_ms s"
| "apply_op (SmoothBlink led_mask count duration_ms) s =
     smooth_blink_leds led_mask count duration_ms s"
| "apply_op TurnOffAll s = turn_off_all_leds s"

fun run_ops :: "led_op list \<Rightarrow> state \<Rightarrow> state" where
  "run_ops [] s = s"
| "run_ops (x # xs) s = run_ops xs (apply_op x s)"

fun is_turn_off :: "led_op \<Rightarrow> bool" where
  "is_turn_off TurnOffAll = True"
| "is_turn_off x = False"

fun is_set_brightness :: "led_op \<Rightarrow> bool" where
  "is_set_brightness (SetBrightness led b) = True"
| "is_set_brightness x = False"

text \<open>
  The cache entry of a LED agrees with the hardware: the driver was not called for
  the LED yet, or the last call left it at the cached level.
\<close>

definition cache_coherent :: "LedType \<Rightarrow> state \<Rightarrow> bool" where
  "cache_coherent led s =
     (case hw_level led (trace s) of None \<Rightarrow> True | Some v \<Rightarrow> led_brightness s led = v)"

text \<open>
  What one LED goes through in time: the brightness values written to it (\<open>Inl\<close>)
  and the sleeps (\<open>Inr\<close>), in the order of the trace.  \<open>stepped d vs\<close> is the
  timeline of a fade that writes the values \<open>vs\<close> and sleeps \<open>d\<close> ms after each.
\<close>

fun timeline :: "LedType \<Rightarrow> event list \<Rightarrow> (u8 + int) list" where
  "timeline led [] = []"
| "timeline led (LedSetBrightness k b # es) =
     (if k = led then Inl b # timeline led es else timeline led es)"
| "timeline led (MSleep ms # es) = Inr ms # timeline led es"
| "timeline led (e # es) = timeline led es"

fun stepped :: "int \<Rightarrow> u8 list \<Rightarrow> (u8 + int) list" where
  "stepped d [] = []"
| "stepped d (v # vs) = Inl v # Inr d # stepped d vs"

text \<open>
  Between the states \<open>s\<close> and \<open>s'\<close> the brightness stayed in range: every cache
  entry of \<open>s'\<close> is at most \<open>LED_STATUS_ON\<close>, and so is every brightness written to
  a LED since \<open>s\<close>.
\<close>

definition writes_in_range :: "state \<Rightarrow> state \<Rightarrow> bool" where
  "writes_in_range s s' \<longleftrightarrow>
     (\<forall>led. led_brightness s' led \<le> 100)
     \<and> (\<forall>led. \<exists>ws. brightness_writes led (trace s') = brightness_writes led (trace s) @ ws
                  \<and> (\<forall>v \<in> set ws. v \<le> 100))"

section \<open>Facts about the model\<close>

subsection \<open>Basics\<close>

lemmas prim_defs = emit_def set_individual_led_brightness_def get_led_brightness_def
  k_msleep_def k_work_reschedule_def k_work_schedule_for_queue_def

lemmas const_defs = LED_STATUS_ON_def LED_STATUS_OFF_def LED_FADE_STEPS_def LED_COUNT_def
  BLINK_HOLD_DURATION_MS_def

lemma sdiv_nonneg: "0 \<le> a \<Longrightarrow> 0 \<le> b \<Longrightarrow> (a::int) sdiv b = a div b"
  by (cases "a = 0"; cases "b = 0") (simp_all add: signed_divide_int_def)

lemma fade_in_value: "LED_STATUS_ON * i sdiv LED_FADE_STEPS = i"
  by (simp add: const_defs signed_divide_int_def sgn_mult abs_mult mult_sgn_abs)

lemma brightness_writes_append [simp]:
  "brightness_writes led (xs @ ys) = brightness_writes led xs @ brightness_writes led ys"
  by (induction led xs rule: brightness_writes.induct) simp_all

lemma sleeps_append [simp]: "sleeps (xs @ ys) = sleeps xs @ sleeps ys"
  by (induction xs rule: sleeps.induct) simp_all

lemma hw_level_snoc:
  "hw_level led (xs @ [e]) =
     (case e of
        LedSetBrightness k b \<Rightarrow> if k = led then Some b else hw_level led xs
      | LedOff k \<Rightarrow> if k = led then Some (of_int LED_STATUS_OFF) else hw_level led xs
      | _ \<Rightarrow> hw_level led xs)"
  by (induction xs) (simp_all split: option.splits event.splits)

lemma in_all_leds [simp]: "l \<in> set all_leds"
  by (cases l) (simp_all add: all_leds_def)

lemma distinct_all_leds [simp]: "distinct all_leds"
  by (simp add: all_leds_def)

lemma sint_div_100: "sint ((d :: 32 word) div 100) = uint d div 100"
proof -
  have b: "uint d < 2 ^ 32" using uint_bounded [of d] by simp
  have n: "0 \<le> uint d" by (rule uint_nonnegative)
  have e: "uint (d div 100) = uint d div 100" by (simp add: uint_div)
  have "0 \<le> uint d div 100" "uint d div 100 < 2 ^ 31" using b n by (simp_all add: pos_imp_zdiv_nonneg_iff)
  then show ?thesis by (simp add: sint_uint e signed_take_bit_int_eq_self)
qed

lemma sint_div_200: "sint ((d :: 32 word) div 200) = uint d div 200"
proof -
  have b: "uint d < 2 ^ 32" using uint_bounded [of d] by simp
  have n: "0 \<le> uint d" by (rule uint_nonnegative)
  have e: "uint (d div 200) = uint d div 200" by (simp add: uint_div)
  have "0 \<le> uint d div 200" "uint d div 200 < 2 ^ 31" using b n by (simp_all add: pos_imp_zdiv_nonneg_iff)
  then show ?thesis by (simp add: sint_uint e signed_take_bit_int_eq_self)
qed

subsection \<open>Fade-in\<close>

lemma fade_in_loop_pres:
  assumes "\<And>k b s. Q k \<Longrightarrow> P s \<Longrightarrow> P (set_individual_led_brightness k b s)"
    and "\<And>ms s. P s \<Longrightarrow> P (k_msleep ms s)"
  shows "Q led \<Longrightarrow> P s \<Longrightarrow> P (fade_in_loop led d i s)"
proof (induction led d i s rule: fade_in_loop.induct)
  case (1 led d i s)
  show ?case
  proof (cases "i \<le> LED_FADE_STEPS")
    case True
    have "P (k_msleep (sint d) (set_individual_led_brightness led
              (of_int (LED_STATUS_ON * i sdiv LED_FADE_STEPS)) s))"
      using assms "1.prems" by blast
    from "1.IH" [OF True "1.prems"(1) this] show ?thesis
      by (subst fade_in_loop.simps) (simp add: True)
  next
    case False
    then show ?thesis using "1.prems" by (subst fade_in_loop.simps) simp
  qed
qed

lemma fade_in_loop_writes:
  "brightness_writes l (trace (fade_in_loop led d i s)) =
     brightness_writes l (trace s) @
       (if l = led then map of_int [i..LED_FADE_STEPS] else [])"
proof (induction led d i s rule: fade_in_loop.induct)
  case (1 led d i s)
  show ?case
  proof (cases "i \<le> LED_FADE_STEPS")
    case True
    have u: "[i..LED_FADE_STEPS] = i # [i + 1..LED_FADE_STEPS]"
      using True by (rule upto_rec1)
    have step: "fade_in_loop led d i s = fade_in_loop led d (i + 1)
        (k_msleep (sint d) (set_individual_led_brightness led
              (of_int (LED_STATUS_ON * i sdiv LED_FADE_STEPS)) s))"
      using True by (subst fade_in_loop.simps) simp
    show ?thesis
      unfolding step "1.IH" [OF True] by (simp add: u prim_defs fade_in_value)
  next
    case False
    then show ?thesis
      by (subst fade_in_loop.simps) simp
  qed
qed

lemma fade_in_loop_sleeps:
  "sleeps (trace (fade_in_loop led d i s)) =
     sleeps (trace s) @ replicate (nat (LED_FADE_STEPS + 1 - i)) (sint d)"
proof (induction led d i s rule: fade_in_loop.induct)
  case (1 led d i s)
  show ?case
  proof (cases "i \<le> LED_FADE_STEPS")
    case True
    have u: "nat (LED_FADE_STEPS + 1 - i) = Suc (nat (LED_FADE_STEPS + 1 - (i + 1)))"
      using True by simp
    have step: "fade_in_loop led d i s = fade_in_loop led d (i + 1)
        (k_msleep (sint d) (set_individual_led_brightness led
              (of_int (LED_STATUS_ON * i sdiv LED_FADE_STEPS)) s))"
      using True by (subst fade_in_loop.simps) simp
    show ?thesis
      unfolding step "1.IH" [OF True] u by (simp add: prim_defs replicate_app_Cons_same)
  next
    case False
    then show ?thesis
      by (subst fade_in_loop.simps) simp
  qed
qed

lemma fade_in_loop_brightness:
  "led_brightness (fade_in_loop led d i s) l =
     (if l = led \<and> i \<le> LED_FADE_STEPS then of_int LED_FADE_STEPS else led_brightness s l)"
proof (induction led d i s rule: fade_in_loop.induct)
  case (1 led d i s)
  show ?case
  proof (cases "i \<le> LED_FADE_STEPS")
    case True
    have step: "fade_in_loop led d i s = fade_in_loop led d (i + 1)
        (k_msleep (sint d) (set_individual_led_brightness led
              (of_int (LED_STATUS_ON * i sdiv LED_FADE_STEPS)) s))"
      using True by (subst fade_in_loop.simps) simp
    have last: "\<not> i + 1 \<le> LED_FADE_STEPS \<Longrightarrow> i = LED_FADE_STEPS"
      using True by arith
    show ?thesis
      unfolding step "1.IH" [OF True] using last
      by (auto simp add: prim_defs fade_in_value)
  next
    case False
    then show ?thesis
      by (subst fade_in_loop.simps) simp
  qed
qed

lemma uint_of_int_small: "0 \<le> i \<Longrightarrow> i \<le> 255 \<Longrightarrow> uint (of_int i :: 8 word) = i"
  by (simp add: uint_word_of_int)

lemma up_vals_uint: "map uint (map of_int [0..100] :: 8 word list) = [0..100]"
proof -
  have "map (\<lambda>i. uint (of_int i :: 8 word)) [0..100] = map (\<lambda>i. i) [0..100]"
    by (rule map_cong) (simp_all add: uint_of_int_small)
  then show ?thesis by (simp add: comp_def)
qed

lemma sorted_up_vals: "sorted (map of_int [0..100] :: 8 word list)"
proof -
  have "sorted (map uint (map of_int [0..100] :: 8 word list))"
    unfolding up_vals_uint by simp
  then show ?thesis
    by (simp add: sorted_map word_le_def comp_def)
qed

lemma hd_up_vals: "hd (map of_int [0..100] :: 8 word list) = 0"
  by (simp add: upto_rec1)

lemma last_up_vals: "last (map of_int [0..100] :: 8 word list) = 100"
  by (simp add: upto_rec2 last_map)

subsection \<open>Values of a fade-out\<close>


lemma uint_scale:
  assumes "0 \<le> j" "j \<le> LED_FADE_STEPS"
  shows "uint (scale c j) = uint c * j div 100"
proof -
  have c: "0 \<le> uint c" "uint c < 256" using uint_bounded [of c] by simp_all
  have "uint c * j \<le> uint c * 100"
    using assms c by (intro mult_left_mono) (simp_all add: const_defs)
  then have "uint c * j div 100 \<le> uint c" by simp
  moreover have "0 \<le> uint c * j div 100"
    using assms c by (simp add: pos_imp_zdiv_nonneg_iff)
  moreover have "uint c * j sdiv LED_FADE_STEPS = uint c * j div 100"
    using assms c by (simp add: sdiv_nonneg const_defs)
  ultimately show ?thesis
    using c by (simp add: scale_def uint_word_of_int)
qed

lemma scale_le:
  assumes "0 \<le> j" "j \<le> LED_FADE_STEPS"
  shows "scale c j \<le> c"
proof -
  have c: "0 \<le> uint c" by simp
  have "uint c * j \<le> uint c * 100"
    using assms c by (intro mult_left_mono) (simp_all add: const_defs)
  then have "uint c * j div 100 \<le> uint c" by simp
  then show ?thesis by (simp add: word_le_def uint_scale [OF assms])
qed

lemma scale_0 [simp]: "scale c 0 = 0"
  by (simp add: scale_def)

lemma scale_full [simp]: "scale c LED_FADE_STEPS = c"
  by (simp add: scale_def const_defs signed_divide_int_def sgn_mult abs_mult mult_sgn_abs)

lemma fade_values_rec:
  "0 \<le> j \<Longrightarrow> fade_values c j = scale c j # fade_values (scale c j) (j - 1)"
  by (subst fade_values.simps) (simp add: scale_def Let_def)

lemma fade_values_neg [simp]: "j < 0 \<Longrightarrow> fade_values c j = []"
  by (subst fade_values.simps) simp

lemma length_fade_values: "length (fade_values c j) = nat (j + 1)"
proof (induction c j rule: fade_values.induct)
  case (1 c j)
  show ?case
  proof (cases "0 \<le> j")
    case True
    have "length (fade_values (scale c j) (j - 1)) = nat (j - 1 + 1)"
      using "1.IH" [OF True] by (simp add: scale_def)
    then show ?thesis using True by (simp add: fade_values_rec)
  next
    case False
    then show ?thesis by simp
  qed
qed

lemma fade_values_bounded:
  "j \<le> LED_FADE_STEPS \<Longrightarrow> \<forall>v \<in> set (fade_values c j). v \<le> c"
proof (induction c j rule: fade_values.induct)
  case (1 c j)
  show ?case
  proof (cases "0 \<le> j")
    case True
    have le: "scale c j \<le> c" using True "1.prems" by (rule scale_le)
    have "\<forall>v \<in> set (fade_values (scale c j) (j - 1)). v \<le> scale c j"
      using "1.IH" [OF True] "1.prems" by (simp add: scale_def)
    then show ?thesis using True le by (auto simp add: fade_values_rec)
  next
    case False
    then show ?thesis by simp
  qed
qed

lemma sorted_rev_fade_values:
  "j \<le> LED_FADE_STEPS \<Longrightarrow> sorted (rev (fade_values c j))"
proof (induction c j rule: fade_values.induct)
  case (1 c j)
  show ?case
  proof (cases "0 \<le> j")
    case True
    have "sorted (rev (fade_values (scale c j) (j - 1)))"
      using "1.IH" [OF True] "1.prems" by (simp add: scale_def)
    moreover have "\<forall>v \<in> set (fade_values (scale c j) (j - 1)). v \<le> scale c j"
      using "1.prems" by (intro fade_values_bounded) simp
    ultimately show ?thesis using True by (simp add: fade_values_rec sorted_append)
  next
    case False
    then show ?thesis by simp
  qed
qed

lemma last_fade_values: "0 \<le> j \<Longrightarrow> last (fade_values c j) = 0"
proof (induction c j rule: fade_values.induct)
  case (1 c j)
  show ?case
  proof (cases "j = 0")
    case True
    then show ?thesis by (simp add: fade_values_rec)
  next
    case False
    then have pos: "0 \<le> j - 1" using "1.prems" by simp
    have "last (fade_values (scale c j) (j - 1)) = 0"
      using "1.IH" [OF "1.prems"] pos by (simp add: scale_def)
    moreover have "fade_values (scale c j) (j - 1) \<noteq> []"
      using pos length_fade_values [of "scale c j" "j - 1"] by auto
    ultimately show ?thesis using "1.prems" by (simp add: fade_values_rec)
  qed
qed

lemma hd_fade_values: "hd (fade_values c LED_FADE_STEPS) = c"
  by (simp add: fade_values_rec const_defs) (simp add: scale_full [unfolded const_defs])

lemma fade_values_nth_Suc:
  "0 \<le> j \<Longrightarrow> int n < j \<Longrightarrow>
     fade_values c j ! Suc n = scale (fade_values c j ! n) (j - 1 - int n)"
proof (induction n arbitrary: c j)
  case 0
  then show ?case by (simp add: fade_values_rec)
next
  case (Suc n)
  have "fade_values (scale c j) (j - 1) ! Suc n
          = scale (fade_values (scale c j) (j - 1) ! n) (j - 1 - 1 - int n)"
    using Suc.prems by (intro Suc.IH) simp_all
  then show ?case using Suc.prems by (simp add: fade_values_rec algebra_simps)
qed

subsection \<open>The loop over the LEDs\<close>

lemma fade_out_leds_pres:
  assumes "\<And>k b s. P s \<Longrightarrow> P (set_individual_led_brightness k b s)"
  shows "P s \<Longrightarrow> P (fade_out_leds j ks s)"
  by (induction ks arbitrary: s) (simp_all add: assms Let_def)

lemma fade_out_leds_brightness:
  "distinct ks \<Longrightarrow> led_brightness (fade_out_leds j ks s) l =
     (if l \<in> set ks then scale (led_brightness s l) j else led_brightness s l)"
  by (induction ks arbitrary: s) (auto simp add: prim_defs scale_def Let_def)

lemma fade_out_leds_writes:
  "distinct ks \<Longrightarrow> brightness_writes l (trace (fade_out_leds j ks s)) =
     brightness_writes l (trace s) @ (if l \<in> set ks then [scale (led_brightness s l) j] else [])"
  by (induction ks arbitrary: s) (auto simp add: prim_defs scale_def Let_def)

lemma blink_in_leds_pres:
  assumes "\<And>k b s. mask_selects m k \<Longrightarrow> P s \<Longrightarrow> P (set_individual_led_brightness k b s)"
  shows "P s \<Longrightarrow> P (blink_in_leds m j ks s)"
  by (induction ks arbitrary: s) (simp_all add: assms)

lemma blink_in_leds_brightness:
  "led_brightness (blink_in_leds m j ks s) l =
     (if l \<in> set ks \<and> mask_selects m l then of_int j else led_brightness s l)"
  by (induction ks arbitrary: s) (auto simp add: prim_defs fade_in_value)

lemma blink_in_leds_writes:
  "distinct ks \<Longrightarrow> brightness_writes l (trace (blink_in_leds m j ks s)) =
     brightness_writes l (trace s) @ (if l \<in> set ks \<and> mask_selects m l then [of_int j] else [])"
  by (induction ks arbitrary: s) (auto simp add: prim_defs fade_in_value)

lemma blink_out_leds_pres:
  assumes "\<And>k b s. mask_selects m k \<Longrightarrow> P s \<Longrightarrow> P (set_individual_led_brightness k b s)"
  shows "P s \<Longrightarrow> P (blink_out_leds m j ks s)"
  by (induction ks arbitrary: s) (simp_all add: assms Let_def)

lemma blink_out_leds_brightness:
  "distinct ks \<Longrightarrow> led_brightness (blink_out_leds m j ks s) l =
     (if l \<in> set ks \<and> mask_selects m l then scale (led_brightness s l) j else led_brightness s l)"
  by (induction ks arbitrary: s) (auto simp add: prim_defs scale_def Let_def)

lemma blink_out_leds_writes:
  "distinct ks \<Longrightarrow> brightness_writes l (trace (blink_out_leds m j ks s)) =
     brightness_writes l (trace s) @
       (if l \<in> set ks \<and> mask_selects m l then [scale (led_brightness s l) j] else [])"
  by (induction ks arbitrary: s) (auto simp add: prim_defs scale_def Let_def)

subsection \<open>Fade-out\<close>

lemma fade_out_loop_step:
  "0 \<le> j \<Longrightarrow> fade_out_loop d j s =
     fade_out_loop d (j - 1) (k_msleep (sint d) (fade_out_leds j all_leds s))"
  by (subst fade_out_loop.simps) simp

lemma fade_out_loop_stop: "j < 0 \<Longrightarrow> fade_out_loop d j s = s"
  by (subst fade_out_loop.simps) simp

lemma fade_out_loop_pres:
  assumes "\<And>k b s. P s \<Longrightarrow> P (set_individual_led_brightness k b s)"
    and "\<And>ms s. P s \<Longrightarrow> P (k_msleep ms s)"
  shows "P s \<Longrightarrow> P (fade_out_loop d j s)"
proof (induction d j s rule: fade_out_loop.induct)
  case (1 d j s)
  show ?case
  proof (cases "0 \<le> j")
    case True
    have "P (fade_out_leds j all_leds s)"
      using assms(1) "1.prems" by (rule fade_out_leds_pres [where P = P])
    then have "P (k_msleep (sint d) (fade_out_leds j all_leds s))"
      by (rule assms(2))
    from "1.IH" [OF True this] show ?thesis
      by (simp add: fade_out_loop_step [OF True])
  next
    case False
    then show ?thesis using "1.prems" by (simp add: fade_out_loop_stop)
  qed
qed

lemma fade_out_loop_writes:
  "brightness_writes l (trace (fade_out_loop d j s)) =
     brightness_writes l (trace s) @ fade_values (led_brightness s l) j"
proof (induction d j s rule: fade_out_loop.induct)
  case (1 d j s)
  show ?case
  proof (cases "0 \<le> j")
    case True
    show ?thesis
      unfolding fade_out_loop_step [OF True] "1.IH" [OF True]
      by (simp add: fade_values_rec [OF True, of "led_brightness s l"] k_msleep_def emit_def
          fade_out_leds_writes fade_out_leds_brightness)
  next
    case False
    then show ?thesis by (simp add: fade_out_loop_stop)
  qed
qed

lemma fade_out_loop_sleeps:
  "sleeps (trace (fade_out_loop d j s)) = sleeps (trace s) @ replicate (nat (j + 1)) (sint d)"
proof (induction d j s rule: fade_out_loop.induct)
  case (1 d j s)
  show ?case
  proof (cases "0 \<le> j")
    case True
    have u: "nat (j + 1) = Suc (nat (j - 1 + 1))" using True by simp
    have inner: "sleeps (trace (fade_out_leds j all_leds s)) = sleeps (trace s)"
      by (rule fade_out_leds_pres) (simp_all add: prim_defs)
    show ?thesis
      unfolding fade_out_loop_step [OF True] "1.IH" [OF True] u
      by (simp add: k_msleep_def emit_def inner replicate_app_Cons_same)
  next
    case False
    then show ?thesis by (simp add: fade_out_loop_stop)
  qed
qed

lemma fade_out_loop_brightness:
  "0 \<le> j \<Longrightarrow> led_brightness (fade_out_loop d j s) l = 0"
proof (induction d j s rule: fade_out_loop.induct)
  case (1 d j s)
  show ?case
  proof (cases "j = 0")
    case True
    then show ?thesis
      by (simp add: fade_out_loop_step fade_out_loop_stop k_msleep_def emit_def
          fade_out_leds_brightness)
  next
    case False
    then have "0 \<le> j - 1" using "1.prems" by simp
    from "1.IH" [OF "1.prems" this] show ?thesis
      by (simp add: fade_out_loop_step [OF "1.prems"])
  qed
qed

subsection \<open>Blink\<close>

lemma blink_in_loop_step:
  "j \<le> LED_FADE_STEPS \<Longrightarrow> blink_in_loop m d j s =
     blink_in_loop m d (j + 1) (k_msleep (sint d) (blink_in_leds m j all_leds s))"
  by (subst blink_in_loop.simps) simp

lemma blink_in_loop_stop: "\<not> j \<le> LED_FADE_STEPS \<Longrightarrow> blink_in_loop m d j s = s"
  by (subst blink_in_loop.simps) simp

lemma blink_out_loop_step:
  "0 \<le> j \<Longrightarrow> blink_out_loop m d j s =
     blink_out_loop m d (j - 1) (k_msleep (sint d) (blink_out_leds m j all_leds s))"
  by (subst blink_out_loop.simps) simp

lemma blink_out_loop_stop: "j < 0 \<Longrightarrow> blink_out_loop m d j s = s"
  by (subst blink_out_loop.simps) simp

lemma blink_in_loop_pres:
  assumes "\<And>k b s. Q k \<Longrightarrow> P s \<Longrightarrow> P (set_individual_led_brightness k b s)"
    and "\<And>ms s. P s \<Longrightarrow> P (k_msleep ms s)"
  shows "(\<And>k. mask_selects m k \<Longrightarrow> Q k) \<Longrightarrow> P s \<Longrightarrow> P (blink_in_loop m d j s)"
proof (induction m d j s rule: blink_in_loop.induct)
  case (1 m d j s)
  show ?case
  proof (cases "j \<le> LED_FADE_STEPS")
    case True
    have sel: "\<And>k b s. mask_selects m k \<Longrightarrow> P s
        \<Longrightarrow> P (set_individual_led_brightness k b s)"
      using assms(1) "1.prems"(1) by blast
    have "P (blink_in_leds m j all_leds s)"
      using sel "1.prems"(2) by (rule blink_in_leds_pres [where P = P])
    then have "P (k_msleep (sint d) (blink_in_leds m j all_leds s))"
      by (rule assms(2))
    from "1.IH" [OF True "1.prems"(1) this] show ?thesis
      by (simp add: blink_in_loop_step [OF True])
  next
    case False
    then show ?thesis using "1.prems" by (simp add: blink_in_loop_stop)
  qed
qed

lemma blink_out_loop_pres:
  assumes "\<And>k b s. Q k \<Longrightarrow> P s \<Longrightarrow> P (set_individual_led_brightness k b s)"
    and "\<And>ms s. P s \<Longrightarrow> P (k_msleep ms s)"
  shows "(\<And>k. mask_selects m k \<Longrightarrow> Q k) \<Longrightarrow> P s \<Longrightarrow> P (blink_out_loop m d j s)"
proof (induction m d j s rule: blink_out_loop.induct)
  case (1 m d j s)
  show ?case
  proof (cases "0 \<le> j")
    case True
    have sel: "\<And>k b s. mask_selects m k \<Longrightarrow> P s
        \<Longrightarrow> P (set_individual_led_brightness k b s)"
      using assms(1) "1.prems"(1) by blast
    have "P (blink_out_leds m j all_leds s)"
      using sel "1.prems"(2) by (rule blink_out_leds_pres [where P = P])
    then have "P (k_msleep (sint d) (blink_out_leds m j all_leds s))"
      by (rule assms(2))
    from "1.IH" [OF True "1.prems"(1) this] show ?thesis
      by (simp add: blink_out_loop_step [OF True])
  next
    case False
    then show ?thesis using "1.prems" by (simp add: blink_out_loop_stop)
  qed
qed

lemma blink_in_loop_writes:
  "brightness_writes l (trace (blink_in_loop m d j s)) =
     brightness_writes l (trace s) @
       (if mask_selects m l then map of_int [j..LED_FADE_STEPS] else [])"
proof (induction m d j s rule: blink_in_loop.induct)
  case (1 m d j s)
  show ?case
  proof (cases "j \<le> LED_FADE_STEPS")
    case True
    have u: "[j..LED_FADE_STEPS] = j # [j + 1..LED_FADE_STEPS]"
      using True by (rule upto_rec1)
    show ?thesis
      unfolding blink_in_loop_step [OF True] "1.IH" [OF True] u
      by (simp add: k_msleep_def emit_def blink_in_leds_writes)
  next
    case False
    then show ?thesis by (simp add: blink_in_loop_stop)
  qed
qed

lemma blink_in_loop_sleeps:
  "sleeps (trace (blink_in_loop m d j s)) =
     sleeps (trace s) @ replicate (nat (LED_FADE_STEPS + 1 - j)) (sint d)"
proof (induction m d j s rule: blink_in_loop.induct)
  case (1 m d j s)
  show ?case
  proof (cases "j \<le> LED_FADE_STEPS")
    case True
    have u: "nat (LED_FADE_STEPS + 1 - j) = Suc (nat (LED_FADE_STEPS + 1 - (j + 1)))"
      using True by simp
    have inner: "sleeps (trace (blink_in_leds m j all_leds s)) = sleeps (trace s)"
      by (rule blink_in_leds_pres) (simp_all add: prim_defs)
    show ?thesis
      unfolding blink_in_loop_step [OF True] "1.IH" [OF True] u
      by (simp add: k_msleep_def emit_def inner replicate_app_Cons_same)
  next
    case False
    then show ?thesis by (simp add: blink_in_loop_stop)
  qed
qed

lemma blink_in_loop_brightness:
  "led_brightness (blink_in_loop m d j s) l =
     (if mask_selects m l \<and> j \<le> LED_FADE_STEPS then of_int LED_FADE_STEPS
      else led_brightness s l)"
proof (induction m d j s rule: blink_in_loop.induct)
  case (1 m d j s)
  show ?case
  proof (cases "j \<le> LED_FADE_STEPS")
    case True
    have last: "\<not> j + 1 \<le> LED_FADE_STEPS \<Longrightarrow> j = LED_FADE_STEPS"
      using True by arith
    show ?thesis
      unfolding blink_in_loop_step [OF True] "1.IH" [OF True] using last
      by (auto simp add: k_msleep_def emit_def blink_in_leds_brightness)
  next
    case False
    then show ?thesis by (simp add: blink_in_loop_stop)
  qed
qed

lemma blink_out_loop_writes:
  "brightness_writes l (trace (blink_out_loop m d j s)) =
     brightness_writes l (trace s) @
       (if mask_selects m l then fade_values (led_brightness s l) j else [])"
proof (induction m d j s rule: blink_out_loop.induct)
  case (1 m d j s)
  show ?case
  proof (cases "0 \<le> j")
    case True
    show ?thesis
      unfolding blink_out_loop_step [OF True] "1.IH" [OF True]
      by (simp add: fade_values_rec [OF True, of "led_brightness s l"] k_msleep_def emit_def
          blink_out_leds_writes blink_out_leds_brightness)
  next
    case False
    then show ?thesis by (simp add: blink_out_loop_stop)
  qed
qed

lemma blink_out_loop_sleeps:
  "sleeps (trace (blink_out_loop m d j s)) =
     sleeps (trace s) @ replicate (nat (j + 1)) (sint d)"
proof (induction m d j s rule: blink_out_loop.induct)
  case (1 m d j s)
  show ?case
  proof (cases "0 \<le> j")
    case True
    have u: "nat (j + 1) = Suc (nat (j - 1 + 1))" using True by simp
    have inner: "sleeps (trace (blink_out_leds m j all_leds s)) = sleeps (trace s)"
      by (rule blink_out_leds_pres) (simp_all add: prim_defs)
    show ?thesis
      unfolding blink_out_loop_step [OF True] "1.IH" [OF True] u
      by (simp add: k_msleep_def emit_def inner replicate_app_Cons_same)
  next
    case False
    then show ?thesis by (simp add: blink_out_loop_stop)
  qed
qed

lemma blink_out_loop_brightness:
  "0 \<le> j \<Longrightarrow> led_brightness (blink_out_loop m d j s) l =
     (if mask_selects m l then 0 else led_brightness s l)"
proof (induction m d j s rule: blink_out_loop.induct)
  case (1 m d j s)
  show ?case
  proof (cases "j = 0")
    case True
    then show ?thesis
      by (simp add: blink_out_loop_step blink_out_loop_stop k_msleep_def emit_def
          blink_out_leds_brightness)
  next
    case False
    then have "0 \<le> j - 1" using "1.prems" by simp
    from "1.IH" [OF "1.prems" this] show ?thesis
      by (simp add: blink_out_loop_step [OF "1.prems"] k_msleep_def emit_def
          blink_out_leds_brightness)
  qed
qed

lemma map_fade_in_value:
  "map (\<lambda>j. of_int (LED_STATUS_ON * j sdiv LED_FADE_STEPS)) xs = map of_int xs"
  by (simp add: fade_in_value)

lemma blink_once_pres:
  assumes "\<And>k b s. mask_selects m k \<Longrightarrow> P s \<Longrightarrow> P (set_individual_led_brightness k b s)"
    and "\<And>ms s. P s \<Longrightarrow> P (k_msleep ms s)"
    and "P s"
  shows "P (blink_once m D s)"
proof -
  let ?d = "D div of_int (2 * LED_FADE_STEPS)"
  have 1: "P (blink_in_loop m ?d 0 s)"
    by (rule blink_in_loop_pres [where P = P and Q = "mask_selects m"]) (use assms in auto)
  then have 2: "P (k_msleep BLINK_HOLD_DURATION_MS (blink_in_loop m ?d 0 s))"
    by (rule assms(2))
  have 3: "P (blink_out_loop m ?d LED_FADE_STEPS
              (k_msleep BLINK_HOLD_DURATION_MS (blink_in_loop m ?d 0 s)))"
    by (rule blink_out_loop_pres [where P = P and Q = "mask_selects m"]) (use assms 2 in auto)
  then show ?thesis
    unfolding blink_once_def Let_def by (rule assms(2))
qed

lemma blink_once_writes:
  "brightness_writes l (trace (blink_once m D s)) =
     brightness_writes l (trace s) @ (if mask_selects m l then blink_values else [])"
  by (simp add: blink_once_def Let_def blink_values_def fade_in_values_def k_msleep_def emit_def
      blink_out_loop_writes blink_in_loop_writes blink_in_loop_brightness const_defs
      fade_in_value [unfolded const_defs])

lemma blink_once_sleeps:
  "sleeps (trace (blink_once m D s)) =
     sleeps (trace s) @ blink_sleeps (uint D div 200)"
  by (simp add: blink_once_def Let_def blink_sleeps_def k_msleep_def emit_def
      blink_out_loop_sleeps blink_in_loop_sleeps const_defs sint_div_200)

lemma blink_once_brightness:
  "led_brightness (blink_once m D s) l = (if mask_selects m l then 0 else led_brightness s l)"
  by (simp add: blink_once_def Let_def k_msleep_def emit_def
      blink_out_loop_brightness blink_in_loop_brightness const_defs)

lemma blink_loop_step:
  "i < count \<Longrightarrow> blink_loop m count D i s = blink_loop m count D (i + 1) (blink_once m D s)"
  by (subst blink_loop.simps) simp

lemma blink_loop_stop: "\<not> i < count \<Longrightarrow> blink_loop m count D i s = s"
  by (subst blink_loop.simps) simp

lemma blink_loop_pres:
  assumes "\<And>k b s. Q k \<Longrightarrow> P s \<Longrightarrow> P (set_individual_led_brightness k b s)"
    and "\<And>ms s. P s \<Longrightarrow> P (k_msleep ms s)"
  shows "(\<And>k. mask_selects m k \<Longrightarrow> Q k) \<Longrightarrow> P s \<Longrightarrow> P (blink_loop m count D i s)"
proof (induction m count D i s rule: blink_loop.induct)
  case (1 m count D i s)
  show ?case
  proof (cases "i < count")
    case True
    have sel: "\<And>k b s. mask_selects m k \<Longrightarrow> P s
        \<Longrightarrow> P (set_individual_led_brightness k b s)"
      using assms(1) "1.prems"(1) by blast
    have "P (blink_once m D s)"
      using sel assms(2) "1.prems"(2) by (rule blink_once_pres [where P = P])
    from "1.IH" [OF True "1.prems"(1) this] show ?thesis
      by (simp add: blink_loop_step [OF True])
  next
    case False
    then show ?thesis using "1.prems" by (simp add: blink_loop_stop)
  qed
qed

lemma blink_loop_writes:
  "brightness_writes l (trace (blink_loop m count D i s)) =
     brightness_writes l (trace s) @
       (if mask_selects m l then concat (replicate (nat (count - i)) blink_values) else [])"
proof (induction m count D i s rule: blink_loop.induct)
  case (1 m count D i s)
  show ?case
  proof (cases "i < count")
    case True
    have u: "nat (count - i) = Suc (nat (count - (i + 1)))" using True by simp
    show ?thesis
      unfolding blink_loop_step [OF True] "1.IH" [OF True] u
      by (simp add: blink_once_writes)
  next
    case False
    then show ?thesis by (simp add: blink_loop_stop)
  qed
qed

lemma blink_loop_sleeps:
  "sleeps (trace (blink_loop m count D i s)) =
     sleeps (trace s) @ concat (replicate (nat (count - i)) (blink_sleeps (uint D div 200)))"
proof (induction m count D i s rule: blink_loop.induct)
  case (1 m count D i s)
  show ?case
  proof (cases "i < count")
    case True
    have u: "nat (count - i) = Suc (nat (count - (i + 1)))" using True by simp
    show ?thesis
      unfolding blink_loop_step [OF True] "1.IH" [OF True] u
      by (simp add: blink_once_sleeps)
  next
    case False
    then show ?thesis by (simp add: blink_loop_stop)
  qed
qed

lemma blink_loop_brightness:
  "led_brightness (blink_loop m count D i s) l =
     (if mask_selects m l \<and> i < count then 0 else led_brightness s l)"
proof (induction m count D i s rule: blink_loop.induct)
  case (1 m count D i s)
  show ?case
  proof (cases "i < count")
    case True
    show ?thesis
      unfolding blink_loop_step [OF True] "1.IH" [OF True] using True
      by (simp add: blink_once_brightness)
  next
    case False
    then show ?thesis by (simp add: blink_loop_stop)
  qed
qed

lemma smooth_blink_pres:
  assumes "\<And>k b s. mask_selects m k \<Longrightarrow> P s \<Longrightarrow> P (set_individual_led_brightness k b s)"
    and "\<And>ms s. P s \<Longrightarrow> P (k_msleep ms s)"
    and "P s"
  shows "P (smooth_blink_leds m count D s)"
  unfolding smooth_blink_leds_def
  by (rule blink_loop_pres [where P = P and Q = "mask_selects m"]) (use assms in auto)

lemma smooth_blink_writes:
  "brightness_writes l (trace (smooth_blink_leds m count D s)) =
     brightness_writes l (trace s) @
       (if mask_selects m l then concat (replicate (nat count) blink_values) else [])"
  by (simp add: smooth_blink_leds_def blink_loop_writes)

lemma smooth_blink_sleeps:
  "sleeps (trace (smooth_blink_leds m count D s)) =
     sleeps (trace s) @ concat (replicate (nat count) (blink_sleeps (uint D div 200)))"
  by (simp add: smooth_blink_leds_def blink_loop_sleeps)

lemma smooth_blink_brightness:
  "led_brightness (smooth_blink_leds m count D s) l =
     (if mask_selects m l \<and> 0 < count then 0 else led_brightness s l)"
  by (simp add: smooth_blink_leds_def blink_loop_brightness)

section \<open>The claims\<close>

subsection \<open>Fade-in and fade-out (C1, C2)\<close>

lemma fade_in_values_eq: "fade_in_values = map of_int [0..100]"
  by (simp add: fade_in_values_def fade_in_value) (simp add: const_defs)

lemma fade_in_led_writes:
  "brightness_writes l (trace (fade_in_led led D s)) =
     brightness_writes l (trace s) @ (if l = led then fade_in_values else [])"
  by (simp add: fade_in_led_def fade_in_loop_writes fade_in_values_eq) (simp add: const_defs)

lemma fade_in_led_brightness:
  "led_brightness (fade_in_led led D s) l = (if l = led then 100 else led_brightness s l)"
  by (simp add: fade_in_led_def fade_in_loop_brightness) (simp add: const_defs)

lemma fade_in_led_sleeps:
  "sleeps (trace (fade_in_led led D s)) = sleeps (trace s) @ replicate 101 (uint D div 100)"
  by (simp add: fade_in_led_def fade_in_loop_sleeps const_defs sint_div_100)

lemma fade_out_all_leds_writes:
  "brightness_writes l (trace (fade_out_all_leds D s)) =
     brightness_writes l (trace s) @ fade_values (led_brightness s l) LED_FADE_STEPS"
  by (simp add: fade_out_all_leds_def fade_out_loop_writes)

lemma fade_out_all_leds_sleeps:
  "sleeps (trace (fade_out_all_leds D s)) = sleeps (trace s) @ replicate 101 (uint D div 100)"
  by (simp add: fade_out_all_leds_def fade_out_loop_sleeps const_defs sint_div_100)

text \<open>
  Claim C1.  For every duration \<open>D\<close>, \<open>fade_in_led\<close> writes exactly the 101 values
  \<open>fade_in_values\<close> to its LED: the list is non-decreasing, starts at 0, ends at 100,
  and its i-th element is \<open>100 * i / 100\<close> (no wrap-around in \<open>uint8_t\<close>).
\<close>
theorem C1_fade_in_led:
  "brightness_writes led (trace (fade_in_led led D s)) =
     brightness_writes led (trace s) @ fade_in_values
   \<and> length fade_in_values = 101
   \<and> sorted fade_in_values
   \<and> hd fade_in_values = 0
   \<and> last fade_in_values = 100
   \<and> map uint fade_in_values = map (\<lambda>i. 100 * i div 100) [0..100]"
  by (simp add: fade_in_led_writes)
    (simp add: fade_in_values_eq sorted_up_vals hd_up_vals last_up_vals up_vals_uint
      del: map_map)

lemma uint_fade_values_nth_Suc:
  assumes "int n < 100"
  shows "uint (fade_values c 100 ! Suc n) = uint (fade_values c 100 ! n) * (99 - int n) div 100"
proof -
  have "fade_values c 100 ! Suc n = scale (fade_values c 100 ! n) (100 - 1 - int n)"
    using assms by (intro fade_values_nth_Suc) simp_all
  moreover have "uint (scale (fade_values c 100 ! n) (99 - int n))
      = uint (fade_values c 100 ! n) * (99 - int n) div 100"
    using assms by (intro uint_scale) (simp_all add: const_defs)
  ultimately show ?thesis by simp
qed

text \<open>
  What \<open>fade_out_all_leds\<close> writes to a LED whose cached brightness is \<open>B\<close>: 101
  values, non-increasing, from \<open>B\<close> down to 0, the value of step \<open>j\<close> being
  \<open>c * j / 100\<close> for the value \<open>c\<close> that step \<open>j + 1\<close> wrote (the loop reads the cache
  it has just overwritten).
\<close>

lemma fade_out_all_leds_values:
  "brightness_writes led (trace (fade_out_all_leds D s)) =
     brightness_writes led (trace s) @ fade_values (led_brightness s led) LED_FADE_STEPS
   \<and> length (fade_values (led_brightness s led) LED_FADE_STEPS) = 101
   \<and> sorted (rev (fade_values (led_brightness s led) LED_FADE_STEPS))
   \<and> hd (fade_values (led_brightness s led) LED_FADE_STEPS) = led_brightness s led
   \<and> last (fade_values (led_brightness s led) LED_FADE_STEPS) = 0
   \<and> (\<forall>n < 100.
        uint (fade_values (led_brightness s led) LED_FADE_STEPS ! Suc n) =
          uint (fade_values (led_brightness s led) LED_FADE_STEPS ! n) * (99 - int n) div 100)"
proof -
  let ?ws = "fade_values (led_brightness s led) LED_FADE_STEPS"
  have len: "length ?ws = 101"
    by (simp add: length_fade_values const_defs)
  have srt: "sorted (rev ?ws)"
    by (rule sorted_rev_fade_values) simp
  have lst: "last ?ws = 0"
    by (rule last_fade_values) (simp add: const_defs)
  have nth: "\<forall>n < 100. uint (?ws ! Suc n) = uint (?ws ! n) * (99 - int n) div 100"
    using uint_fade_values_nth_Suc [of _ "led_brightness s led"] by (simp add: const_defs)
  show ?thesis
    using len srt lst nth by (simp add: fade_out_all_leds_writes hd_fade_values)
qed

lemma scale_100_98: "scale 100 98 = 98"
  by (simp add: scale_def const_defs signed_divide_int_def)

lemma fade_values_100_prefix:
  "take 27 (fade_values 100 100) =
     [100, 99, 97, 94, 90, 85, 79, 73, 67, 60, 54, 48, 42, 36, 30, 25, 21, 17, 13, 10, 8, 6,
      4, 3, 2, 1, 0]"
  by code_simp

lemma fade_values_100_rest: "drop 26 (fade_values 100 100) = replicate 75 0"
  by code_simp

text \<open>
  Claim C2: the code breaks it.  After \<open>fade_in_led\<close> the cached brightness of the
  LED is \<open>B = 100\<close>, and a linear fade-out would write \<open>B * j / 100 = j\<close> at step \<open>j\<close>
  (98 at step 98).  \<open>fade_out_all_leds\<close> writes 100, 99, 97, 94, ...: each step scales
  the value the step before left in the cache, so the LED is at 0 from the 27th of
  the 101 writes on, long before the duration is over.
\<close>

theorem C2_fade_out_from_100:
  "brightness_writes LED_1
     (trace (fade_out_all_leds 400 (fade_in_led LED_1 400 initial_state))) =
     fade_in_values @ fade_values 100 LED_FADE_STEPS
   \<and> take 27 (fade_values 100 LED_FADE_STEPS) =
       [100, 99, 97, 94, 90, 85, 79, 73, 67, 60, 54, 48, 42, 36, 30, 25, 21, 17, 13, 10, 8, 6,
        4, 3, 2, 1, 0]
   \<and> drop 26 (fade_values 100 LED_FADE_STEPS) = replicate 75 0
   \<and> scale 100 98 = 98"
  by (simp add: fade_out_all_leds_writes fade_in_led_writes fade_in_led_brightness
      initial_state_def scale_100_98)
    (simp add: const_defs fade_values_100_prefix fade_values_100_rest)

subsection \<open>Battery handler and blink mask (C3, C4)\<close>

lemma mask_selects_8 [simp]:
  "mask_selects 8 l \<longleftrightarrow> l = LED_1"
  by (cases l) (simp_all add: mask_selects_def LED_COUNT_def)

lemma mask_selects_4 [simp]:
  "mask_selects 4 l \<longleftrightarrow> l = LED_2"
  by (cases l) (simp_all add: mask_selects_def LED_COUNT_def)

lemma mask_selects_2 [simp]:
  "mask_selects 2 l \<longleftrightarrow> l = LED_3"
  by (cases l) (simp_all add: mask_selects_def LED_COUNT_def)

lemma mask_selects_1 [simp]:
  "mask_selects 1 l \<longleftrightarrow> l = LED_4"
  by (cases l) (simp_all add: mask_selects_def LED_COUNT_def)

text \<open>
  Claim C3.  The battery handler blinks with a mask and a repeat count that depend
  on the battery level only, by the thresholds 15, 30, 50, 80 (inclusive upper
  bounds, in ascending order), always at 800 ms; the levels 10, 25, 45, 75, 95 fall in
  the five ranges, and 15 and 16 on the two sides of the first threshold.
\<close>
theorem C3_battery_animation_handler:
  "(level \<le> 15 \<longrightarrow>
      battery_animation_handler level s = smooth_blink_leds 0b1000 3 800 s)
   \<and> (15 < level \<and> level \<le> 30 \<longrightarrow>
      battery_animation_handler level s = smooth_blink_leds 0b1000 1 800 s)
   \<and> (30 < level \<and> level \<le> 50 \<longrightarrow>
      battery_animation_handler level s = smooth_blink_leds 0b1100 1 800 s)
   \<and> (50 < level \<and> level \<le> 80 \<longrightarrow>
      battery_animation_handler level s = smooth_blink_leds 0b1110 1 800 s)
   \<and> (80 < level \<longrightarrow>
      battery_animation_handler level s = smooth_blink_leds 0b1110 3 800 s)
   \<and> battery_animation_handler 10 s = smooth_blink_leds 0b1000 3 800 s
   \<and> battery_animation_handler 25 s = smooth_blink_leds 0b1000 1 800 s
   \<and> battery_animation_handler 45 s = smooth_blink_leds 0b1100 1 800 s
   \<and> battery_animation_handler 75 s = smooth_blink_leds 0b1110 1 800 s
   \<and> battery_animation_handler 95 s = smooth_blink_leds 0b1110 3 800 s
   \<and> battery_animation_handler 15 s = smooth_blink_leds 0b1000 3 800 s
   \<and> battery_animation_handler 16 s = smooth_blink_leds 0b1000 1 800 s"
  by (auto simp add: battery_animation_handler_def FADE_DURATION_BATTERY_MS_def
      word_le_nat_alt word_less_nat_alt)

theorem C3_witness:
  "(15::u8) < 20 \<and> (20::u8) \<le> 30 \<and>
   battery_animation_handler 20 initial_state = smooth_blink_leds 0b1000 1 800 initial_state
   \<and> (80::u8) < 200 \<and>
   battery_animation_handler 200 initial_state = smooth_blink_leds 0b1110 3 800 initial_state"
  using C3_battery_animation_handler [of 20 initial_state]
    C3_battery_animation_handler [of 200 initial_state]
  by simp

lemma led_calls_append [simp]: "led_calls l (xs @ ys) = led_calls l xs @ led_calls l ys"
  by (simp add: led_calls_def)

lemma work_calls_append [simp]: "work_calls (xs @ ys) = work_calls xs @ work_calls ys"
  by (simp add: work_calls_def)

lemma smooth_blink_led_calls:
  assumes "\<not> mask_selects m l"
  shows "led_calls l (trace (smooth_blink_leds m count D s)) = led_calls l (trace s)"
proof (rule smooth_blink_pres)
  fix k b and s' :: state
  assume "mask_selects m k" "led_calls l (trace s') = led_calls l (trace s)"
  then show "led_calls l (trace (set_individual_led_brightness k b s')) = led_calls l (trace s)"
    using assms by (auto simp add: prim_defs led_calls_def)
next
  fix ms and s' :: state
  assume "led_calls l (trace s') = led_calls l (trace s)"
  then show "led_calls l (trace (k_msleep ms s')) = led_calls l (trace s)"
    by (simp add: prim_defs led_calls_def)
qed simp

text \<open>
  Claim C4.  A blink with mask \<open>0b1000\<close> selects LED index 0 only: for every repeat
  count and duration the driver is not called for the LEDs of index 1, 2, 3 and their
  cached brightness is unchanged; LED index 0 gets the values of \<open>count\<close> repetitions.
\<close>
theorem C4_smooth_blink_mask:
  "mask_selects 0b1000 LED_1
   \<and> led_calls LED_2 (trace (smooth_blink_leds 0b1000 count D s)) = led_calls LED_2 (trace s)
   \<and> led_calls LED_3 (trace (smooth_blink_leds 0b1000 count D s)) = led_calls LED_3 (trace s)
   \<and> led_calls LED_4 (trace (smooth_blink_leds 0b1000 count D s)) = led_calls LED_4 (trace s)
   \<and> led_brightness (smooth_blink_leds 0b1000 count D s) LED_2 = led_brightness s LED_2
   \<and> led_brightness (smooth_blink_leds 0b1000 count D s) LED_3 = led_brightness s LED_3
   \<and> led_brightness (smooth_blink_leds 0b1000 count D s) LED_4 = led_brightness s LED_4
   \<and> brightness_writes LED_1 (trace (smooth_blink_leds 0b1000 count D s)) =
       brightness_writes LED_1 (trace s) @ concat (replicate (nat count) blink_values)"
  by (simp add: smooth_blink_led_calls smooth_blink_brightness smooth_blink_writes)

subsection \<open>Disconnect check (C5, C6)\<close>

lemma led_calls_simps [simp]:
  "led_calls l [] = []"
  "led_calls l (e # es) = (if addresses l e then e # led_calls l es else led_calls l es)"
  by (simp_all add: led_calls_def)

lemma work_calls_simps [simp]:
  "work_calls [] = []"
  "work_calls (e # es) = (if is_work_call e then e # work_calls es else work_calls es)"
  by (simp_all add: work_calls_def)

lemma smooth_blink_checking [simp]:
  "is_connection_checking (smooth_blink_leds m count D s) = is_connection_checking s"
  by (rule smooth_blink_pres) (simp_all add: prim_defs)

lemma smooth_blink_usb [simp]:
  "usb_conn_state (smooth_blink_leds m count D s) = usb_conn_state s"
  by (rule smooth_blink_pres) (simp_all add: prim_defs)

lemma smooth_blink_profile [simp]:
  "profile_count_blink (smooth_blink_leds m count D s) = profile_count_blink s"
  by (rule smooth_blink_pres) (simp_all add: prim_defs)

lemma smooth_blink_work_calls [simp]:
  "work_calls (trace (smooth_blink_leds m count D s)) = work_calls (trace s)"
  by (rule smooth_blink_pres) (simp_all add: prim_defs)

lemma length_fade_in_values: "length fade_in_values = 101"
  by (simp add: fade_in_values_eq)

lemma length_blink_values: "length blink_values = 202"
  by (simp add: blink_values_def length_fade_in_values length_fade_values const_defs)

lemma check_handler_blinks:
  assumes "is_connection_checking s" "\<not> ble_connected" "usb_conn_state s = ZMK_USB_CONN_NONE"
  shows "check_bluetooth_connection_handler ble_connected s =
           k_work_reschedule check_ble_conn_work 4000
             (smooth_blink_leds 0b0001 1 300 s)"
  using assms
  by (simp add: check_bluetooth_connection_handler_def K_SECONDS_def
      FADE_DURATION_DISCONNECT_MS_def)

text \<open>
  Claim C5, amended.  With the checking flag set, BLE not connected and no USB, the
  disconnect-check handler blinks with mask \<open>0b0001\<close>, one repetition, 300 ms, and
  reschedules itself: the blink writes to the LED of index 3 only (the mask is
  MSB-first), the values of one repetition, with step sleeps of \<open>300 / 200 = 1\<close> ms.
\<close>
theorem C5_disconnect_blink:
  assumes "is_connection_checking s" "usb_conn_state s = ZMK_USB_CONN_NONE"
  shows "check_bluetooth_connection_handler False s =
           k_work_reschedule check_ble_conn_work 4000 (smooth_blink_leds 0b0001 1 300 s)
   \<and> brightness_writes LED_4 (trace (check_bluetooth_connection_handler False s)) =
       brightness_writes LED_4 (trace s) @ blink_values
   \<and> led_calls LED_1 (trace (check_bluetooth_connection_handler False s)) =
       led_calls LED_1 (trace s)
   \<and> led_calls LED_2 (trace (check_bluetooth_connection_handler False s)) =
       led_calls LED_2 (trace s)
   \<and> led_calls LED_3 (trace (check_bluetooth_connection_handler False s)) =
       led_calls LED_3 (trace s)
   \<and> sleeps (trace (check_bluetooth_connection_handler False s)) =
       sleeps (trace s) @ blink_sleeps 1"
  using assms
  by (simp add: check_handler_blinks k_work_reschedule_def emit_def smooth_blink_writes
      smooth_blink_led_calls smooth_blink_sleeps)

theorem C5_witness:
  "is_connection_checking (initial_state\<lparr>is_connection_checking := True\<rparr>)
   \<and> usb_conn_state (initial_state\<lparr>is_connection_checking := True\<rparr>) = ZMK_USB_CONN_NONE
   \<and> brightness_writes LED_4
       (trace (check_bluetooth_connection_handler False
                 (initial_state\<lparr>is_connection_checking := True\<rparr>))) = blink_values"
proof -
  let ?s = "initial_state\<lparr>is_connection_checking := True\<rparr>"
  have 1: "is_connection_checking ?s" by simp
  have 2: "usb_conn_state ?s = ZMK_USB_CONN_NONE" by (simp add: initial_state_def)
  from C5_disconnect_blink [OF 1 2]
  have "brightness_writes LED_4 (trace (check_bluetooth_connection_handler False ?s)) =
      brightness_writes LED_4 (trace ?s) @ blink_values"
    by blast
  moreover have "trace ?s = []" by (simp add: initial_state_def)
  ultimately show ?thesis using 1 2 by simp
qed

text \<open>
  Claim C5 as stated fails: the handler writes nothing to LED index 0, and 202 values
  to LED index 3.
\<close>
theorem C5_counterexample:
  "brightness_writes LED_1
     (trace (check_bluetooth_connection_handler False
               (initial_state\<lparr>is_connection_checking := True\<rparr>))) = []
   \<and> length (brightness_writes LED_4
       (trace (check_bluetooth_connection_handler False
                 (initial_state\<lparr>is_connection_checking := True\<rparr>)))) = 202"
  by (simp add: check_handler_blinks initial_state_def k_work_reschedule_def emit_def
      smooth_blink_writes length_blink_values)

lemma check_handler_idle:
  "\<not> is_connection_checking s \<Longrightarrow> check_bluetooth_connection_handler b s = s"
  by (simp add: check_bluetooth_connection_handler_def)

lemma check_runs_idle:
  "\<not> is_connection_checking s \<Longrightarrow> check_runs bs s = s"
  by (induction bs) (simp_all add: check_handler_idle)

lemma check_handler_connected:
  "is_connection_checking s \<Longrightarrow> b \<or> usb_conn_state s \<noteq> ZMK_USB_CONN_NONE \<Longrightarrow>
     check_bluetooth_connection_handler b s = s\<lparr>is_connection_checking := False\<rparr>"
  by (simp add: check_bluetooth_connection_handler_def)

lemma check_runs_disconnected:
  "is_connection_checking s \<Longrightarrow> usb_conn_state s = ZMK_USB_CONN_NONE \<Longrightarrow>
     is_connection_checking (check_runs (replicate n False) s)
     \<and> usb_conn_state (check_runs (replicate n False) s) = ZMK_USB_CONN_NONE
     \<and> work_calls (trace (check_runs (replicate n False) s)) =
         work_calls (trace s) @ replicate n (WorkReschedule check_ble_conn_work 4000)
     \<and> brightness_writes LED_4 (trace (check_runs (replicate n False) s)) =
         brightness_writes LED_4 (trace s) @ concat (replicate n blink_values)"
proof (induction n arbitrary: s)
  case 0
  then show ?case by simp
next
  case (Suc n)
  let ?s = "check_bluetooth_connection_handler False s"
  have step: "?s = k_work_reschedule check_ble_conn_work 4000 (smooth_blink_leds 0b0001 1 300 s)"
    using Suc.prems by (intro check_handler_blinks) simp_all
  have 1: "is_connection_checking ?s" "usb_conn_state ?s = ZMK_USB_CONN_NONE"
    unfolding step using Suc.prems by (simp_all add: k_work_reschedule_def emit_def)
  have 2: "work_calls (trace ?s) =
      work_calls (trace s) @ [WorkReschedule check_ble_conn_work 4000]"
    unfolding step by (simp add: k_work_reschedule_def emit_def)
  have 3: "brightness_writes LED_4 (trace ?s) = brightness_writes LED_4 (trace s) @ blink_values"
    unfolding step by (simp add: k_work_reschedule_def emit_def smooth_blink_writes)
  from Suc.IH [OF 1] show ?case
    by (simp add: 2 3 replicate_app_Cons_same)
qed

text \<open>
  Claim C6.  A run of the disconnect-check handler with the flag cleared changes
  nothing (no LED write, no reschedule).  With the flag set and BLE connected or the
  USB state not "none", it clears the flag and does nothing else, and so do all later
  runs, whatever they observe.  With the flag set, no USB, and BLE never connected,
  every one of \<open>n\<close> runs blinks and reschedules, for every \<open>n\<close>, and the flag stays set.
\<close>
theorem C6_disconnect_check_runs:
  "(\<not> is_connection_checking s \<longrightarrow> check_bluetooth_connection_handler b s = s)
   \<and> (is_connection_checking s \<and> (b \<or> usb_conn_state s \<noteq> ZMK_USB_CONN_NONE) \<longrightarrow>
        check_bluetooth_connection_handler b s = s\<lparr>is_connection_checking := False\<rparr>
        \<and> check_runs bs (check_bluetooth_connection_handler b s) =
            s\<lparr>is_connection_checking := False\<rparr>)
   \<and> (is_connection_checking s \<and> usb_conn_state s = ZMK_USB_CONN_NONE \<longrightarrow>
        is_connection_checking (check_runs (replicate n False) s)
        \<and> work_calls (trace (check_runs (replicate n False) s)) =
            work_calls (trace s) @ replicate n (WorkReschedule check_ble_conn_work 4000)
        \<and> brightness_writes LED_4 (trace (check_runs (replicate n False) s)) =
            brightness_writes LED_4 (trace s) @ concat (replicate n blink_values))"
proof (intro conjI impI)
  assume "\<not> is_connection_checking s"
  then show "check_bluetooth_connection_handler b s = s" by (rule check_handler_idle)
next
  assume a: "is_connection_checking s \<and> (b \<or> usb_conn_state s \<noteq> ZMK_USB_CONN_NONE)"
  then show c: "check_bluetooth_connection_handler b s = s\<lparr>is_connection_checking := False\<rparr>"
    by (simp add: check_handler_connected)
  show "check_runs bs (check_bluetooth_connection_handler b s) =
      s\<lparr>is_connection_checking := False\<rparr>"
    unfolding c by (rule check_runs_idle) simp
next
  assume a: "is_connection_checking s \<and> usb_conn_state s = ZMK_USB_CONN_NONE"
  then have a1: "is_connection_checking s" and a2: "usb_conn_state s = ZMK_USB_CONN_NONE"
    by simp_all
  note r = check_runs_disconnected [OF a1 a2, of n]
  from r show "is_connection_checking (check_runs (replicate n False) s)" by simp
  from r show "work_calls (trace (check_runs (replicate n False) s)) =
            work_calls (trace s) @ replicate n (WorkReschedule check_ble_conn_work 4000)"
    by simp
  from r show "brightness_writes LED_4 (trace (check_runs (replicate n False) s)) =
            brightness_writes LED_4 (trace s) @ concat (replicate n blink_values)"
    by simp
qed

theorem C6_witness:
  "\<not> is_connection_checking initial_state
   \<and> check_bluetooth_connection_handler False initial_state = initial_state
   \<and> is_connection_checking (initial_state\<lparr>is_connection_checking := True\<rparr>)
   \<and> check_runs [False, True] (check_bluetooth_connection_handler True
         (initial_state\<lparr>is_connection_checking := True\<rparr>)) = initial_state
   \<and> usb_conn_state (initial_state\<lparr>is_connection_checking := True\<rparr>) = ZMK_USB_CONN_NONE
   \<and> work_calls (trace (check_runs (replicate 3 False)
         (initial_state\<lparr>is_connection_checking := True\<rparr>))) =
       replicate 3 (WorkReschedule check_ble_conn_work 4000)"
proof -
  let ?s = "initial_state\<lparr>is_connection_checking := True\<rparr>"
  have 0: "\<not> is_connection_checking initial_state" by (simp add: initial_state_def)
  have 1: "is_connection_checking ?s" by simp
  have 2: "usb_conn_state ?s = ZMK_USB_CONN_NONE" by (simp add: initial_state_def)
  have 3: "?s\<lparr>is_connection_checking := False\<rparr> = initial_state"
    by (simp add: initial_state_def)
  have 4: "trace ?s = []" by (simp add: initial_state_def)
  from C6_disconnect_check_runs [of initial_state False "[]" 0] 0
  have a: "check_bluetooth_connection_handler False initial_state = initial_state"
    by blast
  from C6_disconnect_check_runs [of ?s True "[False, True]" 0] 1
  have b: "check_runs [False, True] (check_bluetooth_connection_handler True ?s) =
      ?s\<lparr>is_connection_checking := False\<rparr>"
    by blast
  from C6_disconnect_check_runs [of ?s False "[]" 3] 1 2
  have c: "work_calls (trace (check_runs (replicate 3 False) ?s)) =
      work_calls (trace ?s) @ replicate 3 (WorkReschedule check_ble_conn_work 4000)"
    by blast
  show ?thesis
    using 0 1 2 a b [unfolded 3] c [unfolded 4] by simp
qed

subsection \<open>BLE profile (C7)\<close>

lemma word_le_2_cases: "(index :: u8) \<le> 2 \<Longrightarrow> index = 0 \<or> index = 1 \<or> index = 2"
proof -
  assume "index \<le> 2"
  then have "unat index \<le> 2" by (simp add: word_le_nat_alt)
  then have "unat index = 0 \<or> unat index = 1 \<or> unat index = 2" by arith
  then show ?thesis by (auto simp add: word_unat_eq_iff)
qed

lemma profile_mask:
  "(index :: u8) \<le> 2 \<Longrightarrow>
     (of_int (drop_bit (unat index) 0b1000) :: u8) = drop_bit (unat index) 0b1000"
  by (drule word_le_2_cases) (auto simp add: drop_bit_eq_div)

lemma profile_mask_selects:
  "(index :: u8) \<le> 2 \<Longrightarrow>
     mask_selects (drop_bit (unat index) 0b1000) l \<longleftrightarrow> led_index l = uint index"
  by (drule word_le_2_cases) (cases l; auto simp add: drop_bit_eq_div)

lemma listener_in_range:
  "(index :: u8) \<le> 2 \<Longrightarrow> ble_profile_listener (Some index) s =
     k_work_schedule_for_queue ble_profile_work 0 (s\<lparr>profile_count_blink := uint index\<rparr>)"
  by (simp add: ble_profile_listener_def K_NO_WAIT_def)

lemma listener_out_of_range:
  "2 < (index :: u8) \<Longrightarrow> ble_profile_listener (Some index) s = s"
  by (simp add: ble_profile_listener_def word_le_nat_alt word_less_nat_alt)

lemma profile_handler_after_listener:
  assumes "(index :: u8) \<le> 2"
  shows "ble_profile_handler (ble_profile_listener (Some index) s) =
     (let s2 = smooth_blink_leds (drop_bit (unat index) 0b1000) 1 400
                 (ble_profile_listener (Some index) s)
      in if is_connection_checking s2 then s2
         else k_work_reschedule check_ble_conn_work 4000 (s2\<lparr>is_connection_checking := True\<rparr>))"
proof -
  have "profile_count_blink (ble_profile_listener (Some index) s) = uint index"
    using assms by (simp add: listener_in_range k_work_schedule_for_queue_def emit_def)
  then show ?thesis
    using assms
    by (simp add: ble_profile_handler_def Let_def profile_mask K_SECONDS_def
        FADE_DURATION_PROFILE_MS_def)
qed

text \<open>
  Claim C7.  A profile-changed event with an index above 2 leaves the state as it
  is: nothing is scheduled and the stored index is unchanged.  With an index in
  \<open>[0,2]\<close> the listener stores the index and schedules the profile work; the handler
  then blinks the mask \<open>0b1000 >> index\<close> (the LED of that index) once at 400 ms.
\<close>

theorem C7_ble_profile:
  "(2 < index \<longrightarrow> ble_profile_listener (Some index) s = s)
   \<and> (index \<le> 2 \<longrightarrow>
        profile_count_blink (ble_profile_listener (Some index) s) = uint index
      \<and> trace (ble_profile_listener (Some index) s) =
          trace s @ [WorkSchedule ble_profile_work K_NO_WAIT]
      \<and> ble_profile_handler (ble_profile_listener (Some index) s) =
          (let s2 = smooth_blink_leds (drop_bit (unat index) 0b1000) 1 400
                      (ble_profile_listener (Some index) s)
           in if is_connection_checking s2 then s2
              else k_work_reschedule check_ble_conn_work 4000
                     (s2\<lparr>is_connection_checking := True\<rparr>))
      \<and> (\<forall>l. brightness_writes l
                (trace (ble_profile_handler (ble_profile_listener (Some index) s))) =
              brightness_writes l (trace s) @
                (if led_index l = uint index then blink_values else []))
      \<and> sleeps (trace (ble_profile_handler (ble_profile_listener (Some index) s))) =
          sleeps (trace s) @ blink_sleeps 2)"
proof (intro conjI impI allI)
  assume "2 < index"
  then show "ble_profile_listener (Some index) s = s" by (rule listener_out_of_range)
next
  assume a: "index \<le> 2"
  note h = profile_handler_after_listener [OF a, of s]
  show "profile_count_blink (ble_profile_listener (Some index) s) = uint index"
    using a by (simp add: listener_in_range k_work_schedule_for_queue_def emit_def)
  show "trace (ble_profile_listener (Some index) s) =
      trace s @ [WorkSchedule ble_profile_work K_NO_WAIT]"
    using a by (simp add: listener_in_range k_work_schedule_for_queue_def emit_def K_NO_WAIT_def)
  show "ble_profile_handler (ble_profile_listener (Some index) s) =
          (let s2 = smooth_blink_leds (drop_bit (unat index) 0b1000) 1 400
                      (ble_profile_listener (Some index) s)
           in if is_connection_checking s2 then s2
              else k_work_reschedule check_ble_conn_work 4000
                     (s2\<lparr>is_connection_checking := True\<rparr>))"
    by (rule h)
  show "sleeps (trace (ble_profile_handler (ble_profile_listener (Some index) s))) =
          sleeps (trace s) @ blink_sleeps 2"
    unfolding h using a
    by (simp add: Let_def smooth_blink_sleeps k_work_reschedule_def emit_def
        listener_in_range k_work_schedule_for_queue_def)
  fix l
  show "brightness_writes l
                (trace (ble_profile_handler (ble_profile_listener (Some index) s))) =
              brightness_writes l (trace s) @
                (if led_index l = uint index then blink_values else [])"
    unfolding h using a
    by (simp add: Let_def smooth_blink_writes k_work_reschedule_def emit_def
        listener_in_range k_work_schedule_for_queue_def profile_mask_selects)
qed

theorem C7_witness:
  "(2::u8) < 3 \<and> ble_profile_listener (Some 3) initial_state = initial_state
   \<and> (1::u8) \<le> 2
   \<and> profile_count_blink (ble_profile_listener (Some 1) initial_state) = 1
   \<and> brightness_writes LED_2
        (trace (ble_profile_handler (ble_profile_listener (Some 1) initial_state))) = blink_values
   \<and> brightness_writes LED_1
        (trace (ble_profile_handler (ble_profile_listener (Some 1) initial_state))) = []"
proof -
  have t: "trace initial_state = []" by (simp add: initial_state_def)
  have lt: "(2::u8) < 3" and le: "(1::u8) \<le> 2" by simp_all
  from C7_ble_profile [of 3 initial_state] lt
  have a: "ble_profile_listener (Some 3) initial_state = initial_state" by blast
  from C7_ble_profile [of 1 initial_state] le
  have b: "profile_count_blink (ble_profile_listener (Some 1) initial_state) = uint (1::u8)"
    and c: "\<forall>l. brightness_writes l
                (trace (ble_profile_handler (ble_profile_listener (Some 1) initial_state))) =
              brightness_writes l (trace initial_state) @
                (if led_index l = uint (1::u8) then blink_values else [])"
    by blast+
  show ?thesis
    using a b c [THEN spec, of LED_2] c [THEN spec, of LED_1] lt le by (simp add: t)
qed

subsection \<open>Whole operations\<close>

lemma fade_out_all_leds_brightness: "led_brightness (fade_out_all_leds D s) l = 0"
  by (simp add: fade_out_all_leds_def fade_out_loop_brightness const_defs)

lemma fade_in_led_pres:
  assumes "\<And>b s. P s \<Longrightarrow> P (set_individual_led_brightness led b s)"
    and "\<And>ms s. P s \<Longrightarrow> P (k_msleep ms s)"
    and "P s"
  shows "P (fade_in_led led D s)"
  unfolding fade_in_led_def
  by (rule fade_in_loop_pres [where P = P and Q = "\<lambda>k. k = led"]) (use assms in auto)

lemma fade_out_all_leds_pres:
  assumes "\<And>k b s. P s \<Longrightarrow> P (set_individual_led_brightness k b s)"
    and "\<And>ms s. P s \<Longrightarrow> P (k_msleep ms s)"
    and "P s"
  shows "P (fade_out_all_leds D s)"
  unfolding fade_out_all_leds_def
  by (rule fade_out_loop_pres [where P = P]) (use assms in auto)

lemma trace_turn_off_leds: "trace (turn_off_leds ks s) = trace s @ map LedOff ks"
  by (induction ks arbitrary: s) (simp_all add: emit_def)

lemma led_brightness_turn_off_leds: "led_brightness (turn_off_leds ks s) = led_brightness s"
  by (induction ks arbitrary: s) (simp_all add: emit_def)

lemma brightness_writes_offs [simp]: "brightness_writes l (map LedOff ks) = []"
  by (induction ks) simp_all

lemma hw_level_offs:
  "hw_level l (map LedOff ks) = (if l \<in> set ks then Some 0 else None)"
  by (induction ks) (auto simp add: LED_STATUS_OFF_def)

lemma hw_level_append:
  "hw_level l (xs @ ys) = (case hw_level l ys of Some v \<Rightarrow> Some v | None \<Rightarrow> hw_level l xs)"
  by (induction xs) (simp_all split: option.splits)

lemma led_brightness_turn_off_all: "led_brightness (turn_off_all_leds s) = led_brightness s"
  by (simp add: turn_off_all_leds_def led_brightness_turn_off_leds)

lemma brightness_writes_turn_off_all:
  "brightness_writes l (trace (turn_off_all_leds s)) = brightness_writes l (trace s)"
  by (simp add: turn_off_all_leds_def trace_turn_off_leds)

lemma hw_level_turn_off_all: "hw_level l (trace (turn_off_all_leds s)) = Some 0"
  by (simp add: turn_off_all_leds_def trace_turn_off_leds hw_level_append hw_level_offs)

subsection \<open>Cache coherence (C9)\<close>

lemma coherent_set:
  "cache_coherent l s \<Longrightarrow> cache_coherent l (set_individual_led_brightness k b s)"
  by (auto simp add: cache_coherent_def prim_defs hw_level_snoc split: option.splits)

lemma coherent_sleep: "cache_coherent l s \<Longrightarrow> cache_coherent l (k_msleep ms s)"
  by (auto simp add: cache_coherent_def prim_defs hw_level_snoc split: option.splits)

lemma coherent_apply_op:
  "\<not> is_turn_off x \<Longrightarrow> cache_coherent l s \<Longrightarrow> cache_coherent l (apply_op x s)"
proof (cases x)
  case (FadeIn led D)
  assume "cache_coherent l s"
  then have "cache_coherent l (fade_in_led led D s)"
    by (intro fade_in_led_pres [where P = "cache_coherent l"] coherent_set coherent_sleep)
  then show ?thesis by (simp add: FadeIn)
next
  case (FadeOutAll D)
  assume "cache_coherent l s"
  then have "cache_coherent l (fade_out_all_leds D s)"
    by (intro fade_out_all_leds_pres [where P = "cache_coherent l"] coherent_set coherent_sleep)
  then show ?thesis by (simp add: FadeOutAll)
next
  case (SmoothBlink m count D)
  assume "cache_coherent l s"
  then have "cache_coherent l (smooth_blink_leds m count D s)"
    by (intro smooth_blink_pres [where P = "cache_coherent l"] coherent_set coherent_sleep)
  then show ?thesis by (simp add: SmoothBlink)
qed (simp_all add: coherent_set)

lemma coherent_run_ops:
  "\<not> list_ex is_turn_off ops \<Longrightarrow> cache_coherent l s \<Longrightarrow> cache_coherent l (run_ops ops s)"
  by (induction ops arbitrary: s) (simp_all add: coherent_apply_op)

text \<open>
  Claim C9, amended.  After any sequence of \<open>set_individual_led_brightness\<close>,
  \<open>fade_in_led\<close>, \<open>fade_out_all_leds\<close> and \<open>smooth_blink_leds\<close> the cache entry of
  every LED is the level the hardware was last set to.  \<open>turn_off_all_leds\<close> is not
  among them: it switches every LED off and leaves the cache as it was.
\<close>

theorem C9_cache_coherent:
  assumes "cache_coherent led s" and "\<not> list_ex is_turn_off ops"
  shows "cache_coherent led (run_ops ops s)
    \<and> led_brightness (turn_off_all_leds s) = led_brightness s
    \<and> hw_level led (trace (turn_off_all_leds s)) = Some 0"
  using assms
  by (simp add: coherent_run_ops hw_level_turn_off_all led_brightness_turn_off_all)

theorem C9_witness:
  "cache_coherent LED_1 initial_state
   \<and> \<not> list_ex is_turn_off [FadeIn LED_1 400, SmoothBlink 0b1100 2 800, FadeOutAll 400]
   \<and> cache_coherent LED_1
        (run_ops [FadeIn LED_1 400, SmoothBlink 0b1100 2 800, FadeOutAll 400] initial_state)"
proof -
  have 1: "cache_coherent LED_1 initial_state"
    by (simp add: cache_coherent_def initial_state_def)
  have 2: "\<not> list_ex is_turn_off [FadeIn LED_1 400, SmoothBlink 0b1100 2 800, FadeOutAll 400]"
    by simp
  from C9_cache_coherent [OF 1 2] show ?thesis using 1 2 by blast
qed

text \<open>
  Claim C9 as stated fails: after a fade-in of LED index 0 and \<open>turn_off_all_leds\<close>
  the cache entry is 100 and the LED is off.
\<close>

theorem C9_counterexample:
  "led_brightness (run_ops [FadeIn LED_1 400, TurnOffAll] initial_state) LED_1 = 100
   \<and> hw_level LED_1 (trace (run_ops [FadeIn LED_1 400, TurnOffAll] initial_state)) = Some 0"
  by (simp add: hw_level_turn_off_all led_brightness_turn_off_all fade_in_led_brightness)

subsection \<open>Range of the brightness (C10)\<close>

lemma fade_in_values_le: "v \<in> set fade_in_values \<Longrightarrow> v \<le> 100"
  by (auto simp add: fade_in_values_eq word_le_def uint_of_int_small)

lemma fade_values_le: "c \<le> 100 \<Longrightarrow> v \<in> set (fade_values c LED_FADE_STEPS) \<Longrightarrow> v \<le> 100"
  using fade_values_bounded [of LED_FADE_STEPS c] by auto

lemma blink_values_le: "v \<in> set blink_values \<Longrightarrow> v \<le> 100"
  using fade_values_le [of 100 v]
  by (auto simp add: blink_values_def fade_in_values_le LED_STATUS_ON_def)

lemma fade_in_arg_range:
  "0 \<le> i \<Longrightarrow> i \<le> LED_FADE_STEPS \<Longrightarrow>
     0 \<le> LED_STATUS_ON * i sdiv LED_FADE_STEPS \<and> LED_STATUS_ON * i sdiv LED_FADE_STEPS \<le> 100"
  by (simp add: fade_in_value) (simp add: const_defs)

lemma fade_out_arg_range:
  assumes "(c :: u8) \<le> 100" "0 \<le> j" "j \<le> LED_FADE_STEPS"
  shows "0 \<le> uint c * j sdiv LED_FADE_STEPS \<and> uint c * j sdiv LED_FADE_STEPS \<le> 100"
proof -
  have c: "0 \<le> uint c" "uint c \<le> 100" using assms(1) by (simp_all add: word_le_def)
  have e: "uint c * j sdiv LED_FADE_STEPS = uint c * j div 100"
    using assms c by (simp add: sdiv_nonneg const_defs)
  have "uint c * j \<le> uint c * 100"
    using assms c by (intro mult_left_mono) (simp_all add: const_defs)
  then have "uint c * j div 100 \<le> uint c" by simp
  moreover have "0 \<le> uint c * j div 100"
    using assms c by (simp add: pos_imp_zdiv_nonneg_iff)
  ultimately show ?thesis using c e by simp
qed

subsection \<open>Steps and sleeps (C8)\<close>

lemma timeline_append [simp]: "timeline l (xs @ ys) = timeline l xs @ timeline l ys"
  by (induction l xs rule: timeline.induct) simp_all

lemma stepped_append [simp]: "stepped d (xs @ ys) = stepped d xs @ stepped d ys"
  by (induction xs) simp_all

lemma fade_in_loop_timeline:
  "timeline led (trace (fade_in_loop led d i s)) =
     timeline led (trace s) @ stepped (sint d) (map of_int [i..LED_FADE_STEPS])"
proof (induction led d i s rule: fade_in_loop.induct)
  case (1 led d i s)
  show ?case
  proof (cases "i \<le> LED_FADE_STEPS")
    case True
    have u: "[i..LED_FADE_STEPS] = i # [i + 1..LED_FADE_STEPS]"
      using True by (rule upto_rec1)
    have step: "fade_in_loop led d i s = fade_in_loop led d (i + 1)
        (k_msleep (sint d) (set_individual_led_brightness led
              (of_int (LED_STATUS_ON * i sdiv LED_FADE_STEPS)) s))"
      using True by (subst fade_in_loop.simps) simp
    show ?thesis
      unfolding step "1.IH" [OF True] u by (simp add: prim_defs fade_in_value)
  next
    case False
    then show ?thesis
      by (subst fade_in_loop.simps) simp
  qed
qed

lemma fade_out_leds_timeline:
  "distinct ks \<Longrightarrow> timeline l (trace (fade_out_leds j ks s)) =
     timeline l (trace s) @ (if l \<in> set ks then [Inl (scale (led_brightness s l) j)] else [])"
  by (induction ks arbitrary: s) (auto simp add: prim_defs scale_def Let_def)

lemma fade_out_loop_timeline:
  "timeline l (trace (fade_out_loop d j s)) =
     timeline l (trace s) @ stepped (sint d) (fade_values (led_brightness s l) j)"
proof (induction d j s rule: fade_out_loop.induct)
  case (1 d j s)
  show ?case
  proof (cases "0 \<le> j")
    case True
    show ?thesis
      unfolding fade_out_loop_step [OF True] "1.IH" [OF True]
      by (simp add: fade_values_rec [OF True, of "led_brightness s l"] k_msleep_def emit_def
          fade_out_leds_timeline fade_out_leds_brightness)
  next
    case False
    then show ?thesis by (simp add: fade_out_loop_stop)
  qed
qed

lemma blink_in_leds_timeline:
  "distinct ks \<Longrightarrow> timeline l (trace (blink_in_leds m j ks s)) =
     timeline l (trace s) @ (if l \<in> set ks \<and> mask_selects m l then [Inl (of_int j)] else [])"
  by (induction ks arbitrary: s) (auto simp add: prim_defs fade_in_value)

lemma blink_out_leds_timeline:
  "distinct ks \<Longrightarrow> timeline l (trace (blink_out_leds m j ks s)) =
     timeline l (trace s) @
       (if l \<in> set ks \<and> mask_selects m l then [Inl (scale (led_brightness s l) j)] else [])"
  by (induction ks arbitrary: s) (auto simp add: prim_defs scale_def Let_def)

lemma blink_in_loop_timeline:
  "mask_selects m l \<Longrightarrow> timeline l (trace (blink_in_loop m d j s)) =
     timeline l (trace s) @ stepped (sint d) (map of_int [j..LED_FADE_STEPS])"
proof (induction m d j s rule: blink_in_loop.induct)
  case (1 m d j s)
  show ?case
  proof (cases "j \<le> LED_FADE_STEPS")
    case True
    have u: "[j..LED_FADE_STEPS] = j # [j + 1..LED_FADE_STEPS]"
      using True by (rule upto_rec1)
    show ?thesis
      unfolding blink_in_loop_step [OF True] "1.IH" [OF True "1.prems"] u
      using "1.prems" by (simp add: k_msleep_def emit_def blink_in_leds_timeline)
  next
    case False
    then show ?thesis by (simp add: blink_in_loop_stop)
  qed
qed

lemma blink_out_loop_timeline:
  "mask_selects m l \<Longrightarrow> timeline l (trace (blink_out_loop m d j s)) =
     timeline l (trace s) @ stepped (sint d) (fade_values (led_brightness s l) j)"
proof (induction m d j s rule: blink_out_loop.induct)
  case (1 m d j s)
  show ?case
  proof (cases "0 \<le> j")
    case True
    show ?thesis
      unfolding blink_out_loop_step [OF True] "1.IH" [OF True "1.prems"]
      using "1.prems"
      by (simp add: fade_values_rec [OF True, of "led_brightness s l"] k_msleep_def emit_def
          blink_out_leds_timeline blink_out_leds_brightness)
  next
    case False
    then show ?thesis by (simp add: blink_out_loop_stop)
  qed
qed

lemma blink_once_timeline:
  "mask_selects m l \<Longrightarrow> timeline l (trace (blink_once m D s)) =
     timeline l (trace s) @ stepped (uint D div 200) fade_in_values @ [Inr 100]
       @ stepped (uint D div 200) (fade_values 100 LED_FADE_STEPS) @ [Inr 100]"
  by (simp add: blink_once_def Let_def k_msleep_def emit_def blink_out_loop_timeline
      blink_in_loop_timeline blink_in_loop_brightness fade_in_values_eq)
    (simp add: const_defs sint_div_200)

lemma blink_loop_timeline:
  "mask_selects m l \<Longrightarrow> timeline l (trace (blink_loop m count D i s)) =
     timeline l (trace s) @ concat (replicate (nat (count - i))
       (stepped (uint D div 200) fade_in_values @ [Inr 100]
        @ stepped (uint D div 200) (fade_values 100 LED_FADE_STEPS) @ [Inr 100]))"
proof (induction m count D i s rule: blink_loop.induct)
  case (1 m count D i s)
  show ?case
  proof (cases "i < count")
    case True
    have u: "nat (count - i) = Suc (nat (count - (i + 1)))" using True by simp
    show ?thesis
      unfolding blink_loop_step [OF True] "1.IH" [OF True "1.prems"] u
      using "1.prems" by (simp add: blink_once_timeline)
  next
    case False
    then show ?thesis by (simp add: blink_loop_stop)
  qed
qed

text \<open>
  Claim C8, amended.  \<open>fade_in_led\<close> and \<open>fade_out_all_leds\<close> write 101 values to a
  LED and sleep \<open>D / 100\<close> ms after each.  A repetition of a blink writes, to each LED
  of the mask, the 101 values of the ramp up and the 101 values of the ramp down,
  and sleeps \<open>D / 200\<close> ms after each (the duration covers both phases); each phase
  is followed by a hold of 100 ms.
\<close>

theorem C8_step_sleeps:
  "timeline led (trace (fade_in_led led D s)) =
     timeline led (trace s) @ stepped (uint D div 100) fade_in_values
   \<and> timeline led (trace (fade_out_all_leds D s)) =
       timeline led (trace s) @
         stepped (uint D div 100) (fade_values (led_brightness s led) LED_FADE_STEPS)
   \<and> (mask_selects m led \<longrightarrow>
        timeline led (trace (smooth_blink_leds m count D s)) =
          timeline led (trace s) @ concat (replicate (nat count)
            (stepped (uint D div 200) fade_in_values @ [Inr BLINK_HOLD_DURATION_MS]
             @ stepped (uint D div 200) (fade_values 100 LED_FADE_STEPS)
             @ [Inr BLINK_HOLD_DURATION_MS])))
   \<and> length fade_in_values = 101
   \<and> length (fade_values (led_brightness s led) LED_FADE_STEPS) = 101
   \<and> sleeps (trace (fade_in_led led D s)) = sleeps (trace s) @ replicate 101 (uint D div 100)
   \<and> sleeps (trace (fade_out_all_leds D s)) = sleeps (trace s) @ replicate 101 (uint D div 100)
   \<and> sleeps (trace (smooth_blink_leds m count D s)) =
       sleeps (trace s) @ concat (replicate (nat count) (blink_sleeps (uint D div 200)))"
proof -
  have 1: "timeline led (trace (fade_in_led led D s)) =
     timeline led (trace s) @ stepped (uint D div 100) fade_in_values"
    by (simp add: fade_in_led_def fade_in_loop_timeline fade_in_values_eq)
      (simp add: const_defs sint_div_100)
  have 2: "timeline led (trace (fade_out_all_leds D s)) =
       timeline led (trace s) @
         stepped (uint D div 100) (fade_values (led_brightness s led) LED_FADE_STEPS)"
    by (simp add: fade_out_all_leds_def fade_out_loop_timeline)
      (simp add: const_defs sint_div_100)
  have 3: "mask_selects m led \<longrightarrow>
        timeline led (trace (smooth_blink_leds m count D s)) =
          timeline led (trace s) @ concat (replicate (nat count)
            (stepped (uint D div 200) fade_in_values @ [Inr BLINK_HOLD_DURATION_MS]
             @ stepped (uint D div 200) (fade_values 100 LED_FADE_STEPS)
             @ [Inr BLINK_HOLD_DURATION_MS]))"
    by (simp add: smooth_blink_leds_def blink_loop_timeline BLINK_HOLD_DURATION_MS_def)
  have 4: "length (fade_values (led_brightness s led) LED_FADE_STEPS) = 101"
    by (simp add: length_fade_values const_defs)
  show ?thesis
    using 1 2 3 4
    by (simp add: fade_in_led_sleeps fade_out_all_leds_sleeps smooth_blink_sleeps
        length_fade_in_values)
qed

theorem C8_witness:
  "mask_selects 0b1000 LED_1
   \<and> timeline LED_1 (trace (smooth_blink_leds 0b1000 1 300 initial_state)) =
       stepped 1 fade_in_values @ [Inr 100] @ stepped 1 (fade_values 100 LED_FADE_STEPS)
       @ [Inr 100]"
proof -
  have m: "mask_selects 0b1000 LED_1" by simp
  from C8_step_sleeps [of LED_1 300 initial_state "0b1000" 1] m
  have "timeline LED_1 (trace (smooth_blink_leds 0b1000 1 300 initial_state)) =
          timeline LED_1 (trace initial_state) @ concat (replicate (nat 1)
            (stepped (uint (300 :: u32) div 200) fade_in_values @ [Inr BLINK_HOLD_DURATION_MS]
             @ stepped (uint (300 :: u32) div 200) (fade_values 100 LED_FADE_STEPS)
             @ [Inr BLINK_HOLD_DURATION_MS]))"
    by blast
  then show ?thesis
    using m by (simp add: initial_state_def BLINK_HOLD_DURATION_MS_def)
qed

text \<open>
  Claim C8 as stated fails for the blink: at 300 ms its step sleep is 1 ms, not
  \<open>300 / 100 = 3\<close> ms.
\<close>

theorem C8_counterexample:
  "sleeps (trace (smooth_blink_leds 0b1000 1 300 initial_state)) = blink_sleeps 1
   \<and> 3 \<notin> set (blink_sleeps 1) \<and> uint (300 :: u32) div 100 = 3"
  by (simp add: smooth_blink_sleeps initial_state_def) (simp add: blink_sleeps_def const_defs)

lemma writes_in_range_refl:
  "\<forall>led. led_brightness s led \<le> 100 \<Longrightarrow> writes_in_range s s"
  by (simp add: writes_in_range_def)

lemma writes_in_range_step:
  assumes "writes_in_range s0 s"
    and w: "\<And>l. brightness_writes l (trace s') = brightness_writes l (trace s) @ X l"
    and x: "\<And>l v. v \<in> set (X l) \<Longrightarrow> v \<le> 100"
    and c: "\<And>l. led_brightness s' l \<le> 100"
  shows "writes_in_range s0 s'"
  unfolding writes_in_range_def
proof (intro conjI allI)
  fix led
  show "led_brightness s' led \<le> 100" by (rule c)
  from assms(1) obtain ws
    where ws: "brightness_writes led (trace s) = brightness_writes led (trace s0) @ ws"
      "\<forall>v \<in> set ws. v \<le> 100"
    unfolding writes_in_range_def by blast
  have "brightness_writes led (trace s') = brightness_writes led (trace s0) @ (ws @ X led)"
    by (simp add: w ws(1))
  moreover have "\<forall>v \<in> set (ws @ X led). v \<le> 100"
    using ws(2) x by auto
  ultimately show "\<exists>ws. brightness_writes led (trace s') =
      brightness_writes led (trace s0) @ ws \<and> (\<forall>v \<in> set ws. v \<le> 100)"
    by blast
qed

lemma writes_in_range_apply_op:
  assumes "\<not> is_set_brightness x" and r: "writes_in_range s0 s"
  shows "writes_in_range s0 (apply_op x s)"
proof (cases x)
  case (SetBrightness led b)
  then show ?thesis using assms by simp
next
  case (FadeIn led D)
  have "writes_in_range s0 (fade_in_led led D s)"
  proof (rule writes_in_range_step [OF r])
    fix l
    show "brightness_writes l (trace (fade_in_led led D s)) =
        brightness_writes l (trace s) @ (if l = led then fade_in_values else [])"
      by (rule fade_in_led_writes)
    show "led_brightness (fade_in_led led D s) l \<le> 100"
      using r by (simp add: fade_in_led_brightness writes_in_range_def)
  next
    fix l v
    assume "v \<in> set (if l = led then fade_in_values else [])"
    then show "v \<le> 100" by (simp add: fade_in_values_le split: if_splits)
  qed
  then show ?thesis by (simp add: FadeIn)
next
  case (FadeOutAll D)
  have "writes_in_range s0 (fade_out_all_leds D s)"
  proof (rule writes_in_range_step [OF r])
    fix l
    show "brightness_writes l (trace (fade_out_all_leds D s)) =
        brightness_writes l (trace s) @ fade_values (led_brightness s l) LED_FADE_STEPS"
      by (rule fade_out_all_leds_writes)
    show "led_brightness (fade_out_all_leds D s) l \<le> 100"
      by (simp add: fade_out_all_leds_brightness)
  next
    fix l v
    assume v: "v \<in> set (fade_values (led_brightness s l) LED_FADE_STEPS)"
    have "led_brightness s l \<le> 100" using r by (simp add: writes_in_range_def)
    then show "v \<le> 100" using v by (rule fade_values_le)
  qed
  then show ?thesis by (simp add: FadeOutAll)
next
  case (SmoothBlink m count D)
  have "writes_in_range s0 (smooth_blink_leds m count D s)"
  proof (rule writes_in_range_step [OF r])
    fix l
    show "brightness_writes l (trace (smooth_blink_leds m count D s)) =
        brightness_writes l (trace s) @
          (if mask_selects m l then concat (replicate (nat count) blink_values) else [])"
      by (rule smooth_blink_writes)
    show "led_brightness (smooth_blink_leds m count D s) l \<le> 100"
      using r by (simp add: smooth_blink_brightness writes_in_range_def)
  next
    fix l v
    assume "v \<in> set (if mask_selects m l
        then concat (replicate (nat count) blink_values) else [])"
    then show "v \<le> 100" by (auto simp add: blink_values_le split: if_splits)
  qed
  then show ?thesis by (simp add: SmoothBlink)
next
  case TurnOffAll
  have "writes_in_range s0 (turn_off_all_leds s)"
  proof (rule writes_in_range_step [OF r])
    fix l
    show "brightness_writes l (trace (turn_off_all_leds s)) = brightness_writes l (trace s) @ []"
      by (simp add: brightness_writes_turn_off_all)
    show "led_brightness (turn_off_all_leds s) l \<le> 100"
      using r by (simp add: led_brightness_turn_off_all writes_in_range_def)
  qed simp
  then show ?thesis by (simp add: TurnOffAll)
qed

lemma writes_in_range_run_ops:
  "\<not> list_ex is_set_brightness ops \<Longrightarrow> writes_in_range s0 s \<Longrightarrow>
     writes_in_range s0 (run_ops ops s)"
  by (induction ops arbitrary: s) (simp_all add: writes_in_range_apply_op)

text \<open>
  Claim C10.  Starting from cached brightness values of at most 100, after any
  sequence of \<open>fade_in_led\<close>, \<open>fade_out_all_leds\<close>, \<open>smooth_blink_leds\<close> and
  \<open>turn_off_all_leds\<close> every cached value is at most 100 and so is every value
  passed to \<open>set_individual_led_brightness\<close> on the way; and the \<open>int\<close> values the
  module converts to \<open>uint8_t\<close> are in \<open>[0,100]\<close>, so the conversion never truncates.
\<close>

theorem C10_brightness_in_range:
  assumes "\<forall>led. led_brightness s led \<le> 100" and "\<not> list_ex is_set_brightness ops"
  shows "writes_in_range s (run_ops ops s)
    \<and> (\<forall>i. 0 \<le> i \<and> i \<le> LED_FADE_STEPS \<longrightarrow>
          0 \<le> LED_STATUS_ON * i sdiv LED_FADE_STEPS
          \<and> LED_STATUS_ON * i sdiv LED_FADE_STEPS \<le> 100)
    \<and> (\<forall>(c :: u8) j. c \<le> 100 \<and> 0 \<le> j \<and> j \<le> LED_FADE_STEPS \<longrightarrow>
          0 \<le> uint c * j sdiv LED_FADE_STEPS \<and> uint c * j sdiv LED_FADE_STEPS \<le> 100)"
proof -
  have "writes_in_range s s" using assms(1) by (rule writes_in_range_refl)
  with assms(2) have "writes_in_range s (run_ops ops s)" by (rule writes_in_range_run_ops)
  then show ?thesis using fade_in_arg_range fade_out_arg_range by simp
qed

theorem C10_witness:
  "(\<forall>led. led_brightness initial_state led \<le> 100)
   \<and> \<not> list_ex is_set_brightness [FadeIn LED_1 400, SmoothBlink 0b1100 2 800, FadeOutAll 400]
   \<and> writes_in_range initial_state
        (run_ops [FadeIn LED_1 400, SmoothBlink 0b1100 2 800, FadeOutAll 400] initial_state)"
proof -
  have 1: "\<forall>led. led_brightness initial_state led \<le> 100"
    by (simp add: initial_state_def)
  have 2: "\<not> list_ex is_set_brightness
      [FadeIn LED_1 400, SmoothBlink 0b1100 2 800, FadeOutAll 400]"
    by simp
  from C10_brightness_in_range [OF 1 2] show ?thesis using 1 2 by blast
qed

end
